theory Spec2Isabelle
  imports Complex_Main "HOL-Library.Multiset"
begin

section \<open>Natural-language decoding notebook: shallow embedding\<close>

text \<open>
  The notebook is a sequence of Python cells. Each function and each loop that a
  stated property depends on is embedded below as a HOL function. Python exceptions
  are values of the type \<open>error\<close>; a computation that may raise returns
  \<open>error + 'a\<close>, with \<open>Inl\<close> for the exception.
\<close>

datatype error = ValueError | IndexError

type_synonym 'a matrix = "'a list list"

subsection \<open>Transcript cleaning: \<open>clean_text\<close>\<close>

text \<open>
  \<^verbatim>\<open>def clean_text(text): return re.sub(r"[^A-Za-z ']+", '', text).lower()\<close>

  A string is a list of 8-bit characters (for text outside ASCII: its UTF-8 bytes; none of
  them is in the character class, as no code point beyond ASCII is). The character class
  of the pattern lists the upper-case letters, the lower-case letters, the space and the
  apostrophe; the pattern matches a maximal non-empty run of characters outside the class.
\<close>

definition is_upper :: "char \<Rightarrow> bool" where
  "is_upper c = (65 \<le> (of_char c :: nat) \<and> (of_char c :: nat) \<le> 90)"

definition is_lower :: "char \<Rightarrow> bool" where
  "is_lower c = (97 \<le> (of_char c :: nat) \<and> (of_char c :: nat) \<le> 122)"

definition apostrophe :: char where
  "apostrophe = CHR 0x27"

definition in_class :: "char \<Rightarrow> bool" where
  \<comment> \<open>the bracket expression \<open>A-Za-z '\<close> (before negation)\<close>
  "in_class c = (is_upper c \<or> is_lower c \<or> c = CHR '' '' \<or> c = apostrophe)"

function re_sub_runs :: "(char \<Rightarrow> bool) \<Rightarrow> string \<Rightarrow> string" where
  \<comment> \<open>\<open>re.sub('[^cls]+', '', text)\<close>: at each position the longest run of characters
      outside the class is matched and replaced by the empty string\<close>
  "re_sub_runs cls [] = []"
| "re_sub_runs cls (c # cs) =
     (if \<not> cls c then re_sub_runs cls (dropWhile (\<lambda>d. \<not> cls d) cs)
      else c # re_sub_runs cls cs)"
  by pat_completeness auto
termination
  by (relation "measure (\<lambda>(cls, s). length s)")
     (auto simp: length_dropWhile_le le_imp_less_Suc)

definition lower_char :: "char \<Rightarrow> char" where
  \<comment> \<open>\<open>str.lower\<close> on one character of the ASCII range\<close>
  "lower_char c = (if is_upper c then char_of ((of_char c :: nat) + 32) else c)"

definition clean_text :: "string \<Rightarrow> string" where
  "clean_text text = map lower_char (re_sub_runs in_class text)"

definition spec_clean_text :: "string \<Rightarrow> string" where
  \<comment> \<open>the cleaner as the specification words it: only letters and the apostrophe stay\<close>
  "spec_clean_text text =
     map lower_char (filter (\<lambda>c. is_upper c \<or> is_lower c \<or> c = apostrophe) text)"


subsection \<open>Embedding loader: \<open>get_glove_model\<close>\<close>

text \<open>
  \<^verbatim>\<open>
  def get_glove_model(url):
      pre_glove_100 = {}
      if 'http:' in url or 'https:' in url:
          page = requests.get(url)
          pre_glove_100 = {}
          split_text = page.text.split('\n')
          for line in split_text:
              split_line = line.split(' ')
              pre_glove_100[split_line[0]] = np.array([float(x) for x in split_line[1:]])
      else:
          with open(url, 'r', encoding='utf-8') as glove_file:
              for line in glove_file:
                  split_line = line.split()
                  pre_glove_100[split_line[0]] = np.array([float(x) for x in split_line[1:]])
      return pre_glove_100
  \<close>
  The text behind \<open>url\<close> (the body of the HTTP response, or the decoded file) is the
  argument \<open>content\<close>. Python's \<open>float\<close> is the parameter \<open>pf\<close>: \<open>None\<close> where \<open>float\<close>
  raises \<open>ValueError\<close>. The dictionary is a map from tokens to vectors.
\<close>

fun py_in :: "string \<Rightarrow> string \<Rightarrow> bool" where
  \<comment> \<open>\<open>sub in s\<close> on strings\<close>
  "py_in sub [] = (sub = [])"
| "py_in sub (c # cs) = (take (length sub) (c # cs) = sub \<or> py_in sub cs)"

fun split_on :: "char \<Rightarrow> string \<Rightarrow> string list" where
  \<comment> \<open>\<open>s.split(sep)\<close> for a separator of one character: empty fields are kept\<close>
  "split_on sep [] = [[]]"
| "split_on sep (c # cs) =
     (if c = sep then [] # split_on sep cs
      else (case split_on sep cs of [] \<Rightarrow> [[c]] | w # ws \<Rightarrow> (c # w) # ws))"

definition is_space :: "char \<Rightarrow> bool" where
  \<comment> \<open>the ASCII characters for which \<open>str.isspace\<close> holds\<close>
  "is_space c = ((9 \<le> (of_char c :: nat) \<and> (of_char c :: nat) \<le> 13)
                 \<or> (28 \<le> (of_char c :: nat) \<and> (of_char c :: nat) \<le> 32))"

fun split_ws :: "string \<Rightarrow> string list" where
  \<comment> \<open>\<open>s.split()\<close>: fields are the maximal runs of non-blank characters\<close>
  "split_ws [] = []"
| "split_ws (c # cs) =
     (if is_space c then split_ws cs
      else (case cs of
              [] \<Rightarrow> [[c]]
            | d # _ \<Rightarrow>
                if is_space d then [c] # split_ws cs
                else (case split_ws cs of [] \<Rightarrow> [[c]] | w # ws \<Rightarrow> (c # w) # ws)))"

fun universal_newlines :: "string \<Rightarrow> string" where
  \<comment> \<open>text mode of \<open>open\<close>: \<open>\r\n\<close> and a lone \<open>\r\<close> are read as \<open>\n\<close>\<close>
  "universal_newlines [] = []"
| "universal_newlines [c] = (if c = CHR 0x0D then [CHR 0x0A] else [c])"
| "universal_newlines (c # d # cs) =
     (if c = CHR 0x0D \<and> d = CHR 0x0A then CHR 0x0A # universal_newlines cs
      else if c = CHR 0x0D then CHR 0x0A # universal_newlines (d # cs)
      else c # universal_newlines (d # cs))"

definition file_lines :: "string \<Rightarrow> string list" where
  \<comment> \<open>the lines a text file yields when iterated (line terminators left out: \<open>split()\<close>
      discards them)\<close>
  "file_lines content =
     (let parts = split_on (CHR 0x0A) (universal_newlines content)
      in if last parts = [] then butlast parts else parts)"

definition is_http :: "string \<Rightarrow> bool" where
  "is_http url = (py_in ''http:'' url \<or> py_in ''https:'' url)"

definition resource_lines :: "string \<Rightarrow> string \<Rightarrow> string list" where
  "resource_lines url content =
     (if is_http url then split_on (CHR 0x0A) content else file_lines content)"

definition split_line :: "string \<Rightarrow> string \<Rightarrow> string list" where
  "split_line url line = (if is_http url then split_on (CHR '' '') line else split_ws line)"

fun load_lines ::
  "(string \<Rightarrow> 'v option) \<Rightarrow> (string \<Rightarrow> string list) \<Rightarrow> (string \<rightharpoonup> 'v list) \<Rightarrow> string list
     \<Rightarrow> error + (string \<rightharpoonup> 'v list)" where
  \<comment> \<open>the body of either \<open>for\<close> loop; \<open>split_line[0]\<close> of an empty list raises
      \<open>IndexError\<close>, \<open>float\<close> of a field it cannot read raises \<open>ValueError\<close>\<close>
  "load_lines pf fields m [] = Inr m"
| "load_lines pf fields m (line # rest) =
     (case fields line of
        [] \<Rightarrow> Inl IndexError
      | tok # vals \<Rightarrow>
          (case those (map pf vals) of
             None \<Rightarrow> Inl ValueError
           | Some v \<Rightarrow> load_lines pf fields (m(tok \<mapsto> v)) rest))"

definition get_glove_model ::
  "(string \<Rightarrow> 'v option) \<Rightarrow> string \<Rightarrow> string \<Rightarrow> error + (string \<rightharpoonup> 'v list)" where
  "get_glove_model pf url content =
     load_lines pf (split_line url) Map.empty (resource_lines url content)"

definition line_ok :: "(string \<Rightarrow> 'v option) \<Rightarrow> string list \<Rightarrow> bool" where
  \<comment> \<open>a split line that the loop body accepts: a token, then fields that \<open>float\<close> reads\<close>
  "line_ok pf fs = (fs \<noteq> [] \<and> those (map pf (tl fs)) \<noteq> None)"

subsection \<open>Arrays\<close>

text \<open>
  A two-dimensional array is the list of its rows. The notebook writes its sizes as
  literals: 1310 scan time points, 268 regions, 100 embedding dimensions (the last also
  as the global \<open>n_feature = 100\<close>). They are named here so that proofs can keep them
  folded.
\<close>

definition n_trs :: nat where
  "n_trs = 1310"

definition n_rois :: nat where
  "n_rois = 268"

definition n_dims :: nat where
  "n_dims = 100"

definition n_feature :: nat where
  "n_feature = 100"

definition np_zeros :: "nat \<Rightarrow> nat \<Rightarrow> ('a::zero) matrix" where
  "np_zeros r c = replicate r (replicate c 0)"

definition ncols :: "'a matrix \<Rightarrow> nat" where
  \<comment> \<open>the second component of the shape of an array that has a row\<close>
  "ncols M = (case M of [] \<Rightarrow> 0 | r # _ \<Rightarrow> length r)"

definition has_shape :: "nat \<Rightarrow> nat \<Rightarrow> 'a matrix \<Rightarrow> bool" where
  \<comment> \<open>an array of \<open>r\<close> rows and \<open>c\<close> columns\<close>
  "has_shape r c M = (length M = r \<and> list_all (\<lambda>row. length row = c) M)"

definition columns :: "nat \<Rightarrow> 'a matrix \<Rightarrow> 'a matrix" where
  \<comment> \<open>\<open>M.T\<close> for an array \<open>M\<close> of \<open>c\<close> columns\<close>
  "columns c M = map (\<lambda>j. map (\<lambda>r. r ! j) M) [0..<c]"

definition np_concatenate :: "(nat \<times> 'a matrix) list \<Rightarrow> error + 'a matrix" where
  \<comment> \<open>\<open>np.concatenate(blocks, axis=0)\<close>; each block comes with its number of columns,
      which an array without rows still has\<close>
  "np_concatenate blocks =
     (case blocks of
        [] \<Rightarrow> Inl ValueError
      | (c, _) # _ \<Rightarrow>
          if list_all (\<lambda>b. fst b = c) blocks then Inr (concat (map snd blocks))
          else Inl ValueError)"

fun sequence_results :: "(error + 'a) list \<Rightarrow> error + 'a list" where
  \<comment> \<open>a list comprehension whose element expression may raise\<close>
  "sequence_results [] = Inr []"
| "sequence_results (Inl e # _) = Inl e"
| "sequence_results (Inr x # rs) =
     (case sequence_results rs of Inl e \<Rightarrow> Inl e | Inr xs \<Rightarrow> Inr (x # xs))"

subsection \<open>Temporal resampling: \<open>downsample_embeddings\<close>\<close>

text \<open>
  \<^verbatim>\<open>
  def downsample_embeddings(word_embeddings, kind='linear', convolve_hrf=True):
      word_time = word_embeddings['onset']
      embeddings = word_embeddings.iloc[:, 2:]
      linear_downsample = interp1d(word_time, embeddings, kind=kind, axis=0)
      TR_time = np.arange(np.min(word_time), np.max(word_time), 1)
      downsampled_vector = linear_downsample(TR_time)
      downsampled_vector = np.nan_to_num(downsampled_vector, nan=0)
      downsampled_vector = np.concatenate([np.zeros((5, n_feature)), downsampled_vector,
                                           np.zeros((2, 100))], axis=0)
      if convolve_hrf:
          return np.array([np.convolve(x, hrf_weight)[:len(x)] for x in downsampled_vector.T]).T
      else:
          return downsampled_vector
  \<close>
  The data frame \<open>word_embeddings\<close> is the list of its rows: the onset, the word, and the
  embedding columns. Every caller leaves \<open>kind\<close> at \<open>'linear'\<close>. The global \<open>hrf_weight\<close>
  (a kernel computed by a library) is a parameter. Numbers are reals; a value that is
  not a number (NaN) is \<open>None\<close>.
\<close>

record word_row =
  onset :: real
  word :: string
  embedding :: "real list"

definition np_arange :: "real \<Rightarrow> real \<Rightarrow> real list" where
  \<comment> \<open>\<open>np.arange(start, stop, 1)\<close>: \<open>\<lceil>stop - start\<rceil>\<close> values, from \<open>start\<close> in steps of 1\<close>
  "np_arange start stop = map (\<lambda>k. start + real k) [0..<nat \<lceil>stop - start\<rceil>]"

definition searchsorted :: "real list \<Rightarrow> real \<Rightarrow> nat" where
  \<comment> \<open>\<open>np.searchsorted(xs, v)\<close> on a sorted list: the first position whose value is not
      below \<open>v\<close>\<close>
  "searchsorted xs v = length (takeWhile (\<lambda>x. x < v) xs)"

definition interp_row :: "(real \<times> real list) list \<Rightarrow> real \<Rightarrow> real option list" where
  \<comment> \<open>the linear interpolant at \<open>x_new\<close>: the position found by \<open>searchsorted\<close> is clipped
      to \<open>1 .. len - 1\<close>, and \<open>slope * (x_new - x_lo) + y_lo\<close> is taken between the two
      neighbours \<open>lo = i - 1\<close> and \<open>hi = i\<close>. Where the neighbours share their onset the
      slope is a division by zero and \<open>x_new - x_lo\<close> is zero, so the value is NaN.\<close>
  "interp_row pts x_new =
     (let i = min (max (searchsorted (map fst pts) x_new) 1) (length pts - 1);
          x_lo = fst (pts ! (i - 1)); y_lo = snd (pts ! (i - 1));
          x_hi = fst (pts ! i); y_hi = snd (pts ! i)
      in map2 (\<lambda>a b. if x_hi = x_lo then None
                      else Some ((b - a) / (x_hi - x_lo) * (x_new - x_lo) + a)) y_lo y_hi)"

definition interp1d :: "real list \<Rightarrow> real matrix \<Rightarrow> real list \<Rightarrow> error + real option matrix" where
  \<comment> \<open>\<open>interp1d(x, y, kind='linear', axis=0)(x_new)\<close>: the points are sorted by \<open>x\<close>
      (a stable sort); an empty \<open>x\<close> is refused, and so is an \<open>x_new\<close> outside the range
      of \<open>x\<close>\<close>
  "interp1d x y x_new =
     (if x = [] then Inl ValueError
      else let pts = sort_key fst (zip x y)
           in if list_ex (\<lambda>v. v < fst (hd pts) \<or> fst (last pts) < v) x_new then Inl ValueError
              else Inr (map (interp_row pts) x_new))"

definition nan_to_num :: "real option matrix \<Rightarrow> real matrix" where
  \<comment> \<open>\<open>np.nan_to_num(a, nan=0)\<close>\<close>
  "nan_to_num a = map (map (\<lambda>v. case v of None \<Rightarrow> 0 | Some r \<Rightarrow> r)) a"

definition np_convolve :: "real list \<Rightarrow> real list \<Rightarrow> error + real list" where
  \<comment> \<open>\<open>np.convolve(a, v)\<close> in its default mode \<open>'full'\<close>\<close>
  "np_convolve a v =
     (if a = [] \<or> v = [] then Inl ValueError
      else Inr (map (\<lambda>n. \<Sum>m\<leftarrow>[0..<length a].
                     if m \<le> n \<and> n - m < length v then a ! m * v ! (n - m) else 0)
                  [0..<length a + length v - 1]))"

definition downsample_embeddings ::
  "real list \<Rightarrow> word_row list \<Rightarrow> bool \<Rightarrow> error + real matrix" where
  "downsample_embeddings hrf_weight word_embeddings convolve_hrf =
     (let word_time = map onset word_embeddings;
          embeddings = map embedding word_embeddings;
          TR_time = np_arange (Min (set word_time)) (Max (set word_time))
      in case interp1d word_time embeddings TR_time of
           Inl e \<Rightarrow> Inl e
         | Inr downsampled_vector \<Rightarrow>
             (case np_concatenate
                     [(n_feature, np_zeros 5 n_feature),
                      (ncols embeddings, nan_to_num downsampled_vector),
                      (n_dims, np_zeros 2 n_dims)] of
                Inl e \<Rightarrow> Inl e
              | Inr padded \<Rightarrow>
                  if convolve_hrf then
                    (case sequence_results
                            (map (\<lambda>x. map_sum id (take (length x)) (np_convolve x hrf_weight))
                               (columns n_dims padded)) of
                       Inl e \<Rightarrow> Inl e
                     | Inr convolved \<Rightarrow> Inr (columns (length padded) convolved))
                  else Inr padded))"

definition interpolated :: "word_row list \<Rightarrow> real matrix" where
  \<comment> \<open>the value of \<open>downsampled_vector\<close> after \<open>nan_to_num\<close>, when the interpolation returns\<close>
  "interpolated word_embeddings =
     nan_to_num
       (map (interp_row (sort_key fst (zip (map onset word_embeddings)
                                           (map embedding word_embeddings))))
          (np_arange (Min (set (map onset word_embeddings)))
                     (Max (set (map onset word_embeddings)))))"

definition convolve_columns :: "real list \<Rightarrow> real matrix \<Rightarrow> real matrix" where
  \<comment> \<open>the value of the comprehension over \<open>downsampled_vector.T\<close>, transposed back, when
      no convolution raises\<close>
  "convolve_columns hrf_weight padded =
     columns (length padded)
       (map (\<lambda>x. map (\<lambda>n. \<Sum>m\<leftarrow>[0..<length x].
                        if m \<le> n \<and> n - m < length hrf_weight
                        then x ! m * hrf_weight ! (n - m) else 0) [0..<length x])
          (columns n_dims padded))"

definition spec_resampled_length :: "word_row list \<Rightarrow> nat" where
  \<comment> \<open>the output length as the specification words it: \<open>ceil(max_onset) - floor(min_onset)\<close>
      plus the two pad widths\<close>
  "spec_resampled_length word_embeddings =
     nat (\<lceil>Max (set (map onset word_embeddings))\<rceil> - \<lfloor>Min (set (map onset word_embeddings))\<rfloor>) + 5 + 2"

subsection \<open>Library routines of the decoder\<close>

text \<open>
  The decoder calls \<open>LinearRegression().fit\<close>, \<open>reg.coef_\<close>, \<open>reg.predict\<close>,
  \<open>cosine_similarity\<close> and \<open>ndarray.argsort\<close>. They are floating-point routines of
  scikit-learn and NumPy, taken here as parameters; each of the first three may raise.
  Of \<open>argsort\<close> only its contract is used: it returns the indices of the row, ordered by
  ascending value, in an order among equal values that it does not promise.
\<close>

record ('x, 'y, 'm, 'c, 's) library =
  fit :: "'x matrix \<Rightarrow> 'y matrix \<Rightarrow> error + 'm"
  coef :: "'m \<Rightarrow> 'c"
  predict :: "'m \<Rightarrow> 'x matrix \<Rightarrow> error + 'y matrix"
  cosine_similarity :: "'y matrix \<Rightarrow> 'y matrix \<Rightarrow> error + 's matrix"
  argsort :: "'s list \<Rightarrow> nat list"

definition is_argsort :: "(('s::linorder) list \<Rightarrow> nat list) \<Rightarrow> bool" where
  \<comment> \<open>the contract of \<open>argsort\<close>\<close>
  "is_argsort f = (\<forall>row. mset (f row) = mset [0..<length row] \<and> sorted (map (\<lambda>i. row ! i) (f row)))"

definition stable_argsort :: "('s::linorder) list \<Rightarrow> nat list" where
  \<comment> \<open>one \<open>argsort\<close>: the stable one\<close>
  "stable_argsort row = sort_key (\<lambda>i. row ! i) [0..<length row]"

subsection \<open>Leave-one-subject-out decoding\<close>

text \<open>
  \<^verbatim>\<open>
  for train_index, test_index in LOO.split(sub_list):
      X_train = np.zeros((1310*len(train_index), 268))
      y_train = np.zeros((1310*len(train_index), 100))
      for i, idx in enumerate(train_index):
          X_train[i*1310:(i+1)*1310, :] = X[idx, :, :]
          y_train[i*1310:(i+1)*1310, :] = Y
      X_test = X[test_index[0], :, ]
      y_test = Y
      reg = LinearRegression().fit(X_train, y_train)
      map_coef.append(reg.coef_)
      y_pred = reg.predict(X_test)
      similarity = cosine_similarity(y_pred, y_test)
      test_similarity.append(similarity)
      hit = 0
      for j in range(similarity.shape[0]):
          if j in similarity[j,:].argsort()[-n_top:][::-1]:
              hit += 1
      print('Test decoding acc.: {:0.3f}%'.format(100*hit/1310))
      test_hit.append(hit)
  \<close>
  \<open>X\<close> is the list of the subjects' arrays, \<open>Y\<close> the target array, and \<open>n_sub\<close> the length
  of \<open>sub_list\<close>. The lists \<open>test_hit\<close>, \<open>test_similarity\<close> and \<open>map_coef\<close> are the state
  of the loop; when a fold raises, the loop stops and the state is what the folds
  before it and the statements before the exception have made of it.
\<close>

definition py_index :: "'a list \<Rightarrow> nat \<Rightarrow> error + 'a" where
  \<comment> \<open>\<open>xs[i]\<close> for \<open>i \<ge> 0\<close>\<close>
  "py_index xs i = (if i < length xs then Inr (xs ! i) else Inl IndexError)"

definition broadcastable :: "nat \<Rightarrow> nat \<Rightarrow> 'a matrix \<Rightarrow> bool" where
  \<comment> \<open>NumPy's rule for assigning an array to a target of shape \<open>(r, c)\<close>: each
      dimension of the value equals that of the target or is 1\<close>
  "broadcastable r c V = ((length V = r \<or> length V = 1) \<and> (ncols V = c \<or> ncols V = 1))"

definition broadcast_value :: "nat \<Rightarrow> nat \<Rightarrow> 'a matrix \<Rightarrow> 'a matrix" where
  "broadcast_value r c V =
     map (\<lambda>i. map (\<lambda>j. V ! (if length V = 1 then 0 else i) ! (if ncols V = 1 then 0 else j))
            [0..<c]) [0..<r]"

definition assign_rows :: "'a matrix \<Rightarrow> nat \<Rightarrow> nat \<Rightarrow> nat \<Rightarrow> 'a matrix \<Rightarrow> error + 'a matrix" where
  \<comment> \<open>\<open>A[lo:hi, :] = V\<close> for an array \<open>A\<close> of \<open>c\<close> columns; the slice is cut to the
      rows that \<open>A\<close> has\<close>
  "assign_rows A c lo hi V =
     (let l = min lo (length A); h = max l (min hi (length A))
      in if broadcastable (h - l) c V
         then Inr (take l A @ broadcast_value (h - l) c V @ drop h A)
         else Inl ValueError)"

fun fill_train ::
  "'x matrix list \<Rightarrow> 'y matrix \<Rightarrow> nat \<Rightarrow> nat list \<Rightarrow> 'x matrix \<times> 'y matrix
     \<Rightarrow> error + ('x matrix \<times> 'y matrix)" where
  \<comment> \<open>the loop over \<open>enumerate(train_index)\<close>, from position \<open>i\<close>\<close>
  "fill_train X Y i [] (X_train, y_train) = Inr (X_train, y_train)"
| "fill_train X Y i (idx # rest) (X_train, y_train) =
     (case py_index X idx of
        Inl e \<Rightarrow> Inl e
      | Inr Xi \<Rightarrow>
          (case assign_rows X_train n_rois (i * n_trs) ((i + 1) * n_trs) Xi of
             Inl e \<Rightarrow> Inl e
           | Inr X_train' \<Rightarrow>
               (case assign_rows y_train n_dims (i * n_trs) ((i + 1) * n_trs) Y of
                  Inl e \<Rightarrow> Inl e
                | Inr y_train' \<Rightarrow> fill_train X Y (i + 1) rest (X_train', y_train'))))"

definition build_train ::
  "('x::zero) matrix list \<Rightarrow> ('y::zero) matrix \<Rightarrow> nat list \<Rightarrow> error + ('x matrix \<times> 'y matrix)" where
  "build_train X Y train_index =
     fill_train X Y 0 train_index
       (np_zeros (n_trs * length train_index) n_rois, np_zeros (n_trs * length train_index) n_dims)"

definition leave_one_out :: "nat \<Rightarrow> error + (nat list \<times> nat list) list" where
  \<comment> \<open>\<open>LeaveOneOut().split(sub_list)\<close> for \<open>n\<close> subjects: refused for fewer than two\<close>
  "leave_one_out n =
     (if n \<le> 1 then Inl ValueError
      else Inr (map (\<lambda>i. (filter (\<lambda>k. k \<noteq> i) [0..<n], [i])) [0..<n]))"

definition py_last :: "int \<Rightarrow> 'a list \<Rightarrow> 'a list" where
  \<comment> \<open>the slice \<open>xs[-k:]\<close>: a negative start counts from the end and is cut at 0, a
      start that is not negative (\<open>k \<le> 0\<close>) counts from the front\<close>
  "py_last k xs =
     (let n = int (length xs); start = - k
      in drop (nat (if start < 0 then max (start + n) 0 else min start n)) xs)"

definition top_indices :: "(('s::linorder) list \<Rightarrow> nat list) \<Rightarrow> int \<Rightarrow> 's list \<Rightarrow> nat list" where
  \<comment> \<open>\<open>row.argsort()[-n_top:][::-1]\<close>\<close>
  "top_indices asort n_top row = rev (py_last n_top (asort row))"

definition is_hit :: "(('s::linorder) list \<Rightarrow> nat list) \<Rightarrow> int \<Rightarrow> 's matrix \<Rightarrow> nat \<Rightarrow> bool" where
  \<comment> \<open>the test \<open>j in similarity[j,:].argsort()[-n_top:][::-1]\<close>\<close>
  "is_hit asort n_top similarity j = (j \<in> set (top_indices asort n_top (similarity ! j)))"

fun hit_loop :: "(('s::linorder) list \<Rightarrow> nat list) \<Rightarrow> int \<Rightarrow> 's matrix \<Rightarrow> nat list \<Rightarrow> nat \<Rightarrow> nat" where
  \<comment> \<open>the loop over \<open>range(similarity.shape[0])\<close>, from the indices that are left\<close>
  "hit_loop asort n_top similarity [] hit = hit"
| "hit_loop asort n_top similarity (j # js) hit =
     hit_loop asort n_top similarity js (if is_hit asort n_top similarity j then hit + 1 else hit)"

definition count_hits :: "(('s::linorder) list \<Rightarrow> nat list) \<Rightarrow> int \<Rightarrow> 's matrix \<Rightarrow> nat" where
  "count_hits asort n_top similarity =
     hit_loop asort n_top similarity [0..<length similarity] 0"

definition decoding_accuracy :: "nat \<Rightarrow> real" where
  \<comment> \<open>the accuracy of a fold, in percent: \<open>100*hit/1310\<close>\<close>
  "decoding_accuracy hit = 100 * real hit / 1310"

definition count_above :: "('s::linorder) list \<Rightarrow> nat \<Rightarrow> nat" where
  \<comment> \<open>how many entries of the row are greater than its entry \<open>t\<close>\<close>
  "count_above row t = length (filter (\<lambda>v. row ! t < v) row)"

definition count_not_below :: "('s::linorder) list \<Rightarrow> nat \<Rightarrow> nat" where
  \<comment> \<open>how many entries of the row are at least its entry \<open>t\<close> (that entry included)\<close>
  "count_not_below row t = length (filter (\<lambda>v. row ! t \<le> v) row)"

definition spec_is_hit :: "int \<Rightarrow> ('s::linorder) matrix \<Rightarrow> nat \<Rightarrow> bool" where
  \<comment> \<open>a hit as the specification words it: \<open>t\<close> is among the \<open>K\<close> indices of row \<open>t\<close>
      with the highest values, that is, fewer than \<open>K\<close> entries of the row are greater\<close>
  "spec_is_hit K similarity t =
     (t < length (similarity ! t) \<and> int (count_above (similarity ! t) t) < K)"

definition spec_accuracy :: "nat \<Rightarrow> nat \<Rightarrow> real" where
  \<comment> \<open>the accuracy as the specification words it, hits / T, in percent\<close>
  "spec_accuracy hits T = 100 * (real hits / real T)"

record ('c, 's) decoding_state =
  test_hit :: "nat list"
  test_similarity :: "'s matrix list"
  map_coef :: "'c list"

definition init_state :: "('c, 's) decoding_state" where
  "init_state = \<lparr>test_hit = [], test_similarity = [], map_coef = []\<rparr>"

definition fit_predict_score ::
  "('x, 'y, 'm, 'c, 's::linorder) library \<Rightarrow> int \<Rightarrow> ('c, 's) decoding_state
     \<Rightarrow> 'x matrix \<Rightarrow> 'y matrix \<Rightarrow> 'x matrix \<Rightarrow> 'y matrix
     \<Rightarrow> ('c, 's) decoding_state \<times> error option" where
  \<comment> \<open>a fold from \<open>reg = LinearRegression().fit(X_train, y_train)\<close> on\<close>
  "fit_predict_score lib n_top st X_train y_train X_test y_test =
     (case fit lib X_train y_train of
        Inl e \<Rightarrow> (st, Some e)
      | Inr reg \<Rightarrow>
          (let st1 = st\<lparr>map_coef := map_coef st @ [coef lib reg]\<rparr>
           in case predict lib reg X_test of
                Inl e \<Rightarrow> (st1, Some e)
              | Inr y_pred \<Rightarrow>
                  (case cosine_similarity lib y_pred y_test of
                     Inl e \<Rightarrow> (st1, Some e)
                   | Inr similarity \<Rightarrow>
                       (let st2 = st1\<lparr>test_similarity := test_similarity st1 @ [similarity]\<rparr>;
                            hit = count_hits (argsort lib) n_top similarity
                        in (st2\<lparr>test_hit := test_hit st2 @ [hit]\<rparr>, None)))))"

definition fold_step ::
  "('x::zero, 'y::zero, 'm, 'c, 's::linorder) library \<Rightarrow> int \<Rightarrow> 'x matrix list \<Rightarrow> 'y matrix
     \<Rightarrow> ('c, 's) decoding_state \<Rightarrow> nat list \<times> nat list
     \<Rightarrow> ('c, 's) decoding_state \<times> error option" where
  "fold_step lib n_top X Y st split =
     (case build_train X Y (fst split) of
        Inl e \<Rightarrow> (st, Some e)
      | Inr (X_train, y_train) \<Rightarrow>
          (case py_index (snd split) 0 of
             Inl e \<Rightarrow> (st, Some e)
           | Inr t \<Rightarrow>
               (case py_index X t of
                  Inl e \<Rightarrow> (st, Some e)
                | Inr X_test \<Rightarrow> fit_predict_score lib n_top st X_train y_train X_test Y)))"

fun run_folds ::
  "(('c, 's) decoding_state \<Rightarrow> nat list \<times> nat list \<Rightarrow> ('c, 's) decoding_state \<times> error option)
     \<Rightarrow> ('c, 's) decoding_state \<Rightarrow> (nat list \<times> nat list) list
     \<Rightarrow> ('c, 's) decoding_state \<times> error option" where
  "run_folds body st [] = (st, None)"
| "run_folds body st (split # splits) =
     (case body st split of
        (st', Some e) \<Rightarrow> (st', Some e)
      | (st', None) \<Rightarrow> run_folds body st' splits)"

definition loo_decode ::
  "('x::zero, 'y::zero, 'm, 'c, 's::linorder) library \<Rightarrow> int \<Rightarrow> 'x matrix list \<Rightarrow> 'y matrix \<Rightarrow> nat
     \<Rightarrow> ('c, 's) decoding_state \<times> error option" where
  "loo_decode lib n_top X Y n_sub =
     (case leave_one_out n_sub of
        Inl e \<Rightarrow> (init_state, Some e)
      | Inr splits \<Rightarrow> run_folds (fold_step lib n_top X Y) init_state splits)"

definition decoding_pipeline ::
  "('x::zero, 'y::zero, 'm, 'c, 's::linorder) library \<Rightarrow> (real matrix \<Rightarrow> 'y matrix) \<Rightarrow> real list \<Rightarrow> int
     \<Rightarrow> 'x matrix list \<Rightarrow> nat \<Rightarrow> word_row list \<Rightarrow> ('c, 's) decoding_state \<times> error option" where
  \<comment> \<open>\<open>paranoia_embedding = downsample_embeddings(word_embedding)\<close>,
      \<open>Y = zscore(paranoia_embedding, axis=0)\<close>, then the decoding loop; \<open>zscore\<close> is a
      parameter\<close>
  "decoding_pipeline lib zscore hrf_weight n_top X n_sub word_embedding =
     (case downsample_embeddings hrf_weight word_embedding True of
        Inl e \<Rightarrow> (init_state, Some e)
      | Inr paranoia_embedding \<Rightarrow> loo_decode lib n_top X (zscore paranoia_embedding) n_sub)"

subsection \<open>Scrambling baseline\<close>

text \<open>
  \<^verbatim>\<open>
  for iter in range(n_iter):
      word_embedding_scram = pd.concat([word_embedding.loc[:,['onset', 'word']],
          word_embedding.iloc[np.random.permutation(word_embedding.shape[0]), 2:]
              .reset_index(inplace=False, drop=True)], axis=1)
      paranoia_embedding_scram = downsample_embeddings(word_embedding_scram)
      X = fmri_data
      Y = zscore(paranoia_embedding_scram, axis=0)
      scram_hit = []
      for train_index, test_index in LOO.split(sub_list):
          X_train = np.zeros((1310*len(train_index), 268))
          y_train = np.zeros((1310*len(train_index), 100))
          for i, idx in enumerate(train_index):
              X_train[i*1310:(i+1)*1310, :] = X[idx, :, :]
              y_train[i*1310:(i+1)*1310, :] = Y
          X_test = X[test_index[0], :, ]
          y_test = Y
          reg = LinearRegression().fit(X_train, y_train)
          y_pred = reg.predict(X_test)
          similarity = cosine_similarity(y_pred, y_test)
          hit = 0
          for j in range(similarity.shape[0]):
              if j in similarity[j,:].argsort()[-n_top:][::-1]:
                  hit += 1
          scram_hit.append(hit)
      scram_hit_iter.append(100*np.array(scram_hit)/1310)
  \<close>
  One iteration is \<open>scram_trial\<close>. The permutation that \<open>np.random.permutation\<close> draws is
  its argument \<open>perm\<close>, a list holding each of \<open>0 .. n - 1\<close> once, for the \<open>n\<close> rows of
  \<open>word_embedding\<close>. Row \<open>k\<close> of the scrambled table keeps the onset and the word of row
  \<open>k\<close> and takes the embedding columns of row \<open>perm[k]\<close>.
\<close>

definition scramble :: "nat list \<Rightarrow> word_row list \<Rightarrow> word_row list" where
  "scramble perm word_embedding =
     map (\<lambda>k. (word_embedding ! k)\<lparr>embedding := embedding (word_embedding ! (perm ! k))\<rparr>)
       [0..<length word_embedding]"

definition scram_fold ::
  "('x::zero, 'y::zero, 'm, 'c, 's::linorder) library \<Rightarrow> int \<Rightarrow> 'x matrix list \<Rightarrow> 'y matrix
     \<Rightarrow> nat list \<times> nat list \<Rightarrow> error + nat" where
  "scram_fold lib n_top X Y split =
     (case build_train X Y (fst split) of
        Inl e \<Rightarrow> Inl e
      | Inr (X_train, y_train) \<Rightarrow>
          (case py_index (snd split) 0 of
             Inl e \<Rightarrow> Inl e
           | Inr t \<Rightarrow>
               (case py_index X t of
                  Inl e \<Rightarrow> Inl e
                | Inr X_test \<Rightarrow>
                    (case fit lib X_train y_train of
                       Inl e \<Rightarrow> Inl e
                     | Inr reg \<Rightarrow>
                         (case predict lib reg X_test of
                            Inl e \<Rightarrow> Inl e
                          | Inr y_pred \<Rightarrow>
                              (case cosine_similarity lib y_pred Y of
                                 Inl e \<Rightarrow> Inl e
                               | Inr similarity \<Rightarrow>
                                   Inr (count_hits (argsort lib) n_top similarity)))))))"

fun scram_folds ::
  "('x::zero, 'y::zero, 'm, 'c, 's::linorder) library \<Rightarrow> int \<Rightarrow> 'x matrix list \<Rightarrow> 'y matrix
     \<Rightarrow> (nat list \<times> nat list) list \<Rightarrow> nat list \<Rightarrow> error + nat list" where
  "scram_folds lib n_top X Y [] scram_hit = Inr scram_hit"
| "scram_folds lib n_top X Y (split # splits) scram_hit =
     (case scram_fold lib n_top X Y split of
        Inl e \<Rightarrow> Inl e
      | Inr hit \<Rightarrow> scram_folds lib n_top X Y splits (scram_hit @ [hit]))"

definition scram_trial ::
  "('x::zero, 'y::zero, 'm, 'c, 's::linorder) library \<Rightarrow> (real matrix \<Rightarrow> 'y matrix) \<Rightarrow> real list \<Rightarrow> int
     \<Rightarrow> 'x matrix list \<Rightarrow> nat \<Rightarrow> word_row list \<Rightarrow> nat list \<Rightarrow> error + real list" where
  "scram_trial lib zscore hrf_weight n_top X n_sub word_embedding perm =
     (case downsample_embeddings hrf_weight (scramble perm word_embedding) True of
        Inl e \<Rightarrow> Inl e
      | Inr paranoia_embedding_scram \<Rightarrow>
          (case leave_one_out n_sub of
             Inl e \<Rightarrow> Inl e
           | Inr splits \<Rightarrow>
               (case scram_folds lib n_top X (zscore paranoia_embedding_scram) splits [] of
                  Inl e \<Rightarrow> Inl e
                | Inr scram_hit \<Rightarrow> Inr (map decoding_accuracy scram_hit))))"

subsection \<open>Standardisation of the target\<close>

text \<open>
  \<open>scipy.stats.zscore(a, axis=0)\<close> over the reals: every column has its mean subtracted
  and is divided by its standard deviation (\<open>ddof = 0\<close>). A column of standard deviation
  0 is divided by zero and comes out as NaN, written \<open>None\<close>. The decoding loop above
  takes the standardisation as a parameter; this definition serves to evaluate it.
\<close>

definition np_mean :: "real list \<Rightarrow> real" where
  "np_mean xs = sum_list xs / real (length xs)"

definition np_std :: "real list \<Rightarrow> real" where
  "np_std xs = sqrt (np_mean (map (\<lambda>x. (x - np_mean xs)\<^sup>2) xs))"

definition zscore_column :: "real list \<Rightarrow> real option list" where
  "zscore_column xs =
     map (\<lambda>x. if np_std xs = 0 then None else Some ((x - np_mean xs) / np_std xs)) xs"

definition zscore_model :: "real matrix \<Rightarrow> real option matrix" where
  "zscore_model a = columns (length a) (map zscore_column (columns (ncols a) a))"

subsection \<open>Sample inputs\<close>

definition tbl_half :: "word_row list" where
  \<comment> \<open>two words of a 100-dimensional table, with onsets 0.5 s and 2.5 s\<close>
  "tbl_half = [\<lparr>onset = 1/2, word = ''the'', embedding = replicate 100 0\<rparr>,
               \<lparr>onset = 5/2, word = ''end'', embedding = replicate 100 1\<rparr>]"

definition tbl_whole :: "word_row list" where
  \<comment> \<open>two words of a 100-dimensional table, with onsets 0 s and 3 s\<close>
  "tbl_whole = [\<lparr>onset = 0, word = ''the'', embedding = replicate 100 0\<rparr>,
                \<lparr>onset = 3, word = ''end'', embedding = replicate 100 1\<rparr>]"

definition tbl_aligned :: "word_row list" where
  \<comment> \<open>two words of a 100-dimensional table, with onsets 0 s and 1303 s: resampled, they
      give the 1310 rows of the scan\<close>
  "tbl_aligned = [\<lparr>onset = 0, word = ''the'', embedding = replicate 100 0\<rparr>,
                  \<lparr>onset = 1303, word = ''end'', embedding = replicate 100 1\<rparr>]"

definition tbl_narrow :: "word_row list" where
  \<comment> \<open>two words of a 2-dimensional table\<close>
  "tbl_narrow = [\<lparr>onset = 0, word = ''the'', embedding = [1, 2]\<rparr>,
                 \<lparr>onset = 3, word = ''end'', embedding = [3, 4]\<rparr>]"

definition sample_lib :: "(real, real, real matrix \<times> real matrix, real matrix, real) library" where
  \<comment> \<open>a stand-in for the library routines that never raises: the fitted model is the
      training set, the prediction is the first training target for every test row, and
      the similarity is the inner product\<close>
  "sample_lib =
     \<lparr>fit = (\<lambda>X_train y_train. Inr (X_train, y_train)),
      coef = fst,
      predict = (\<lambda>reg X_test. Inr (map (\<lambda>_. hd (snd reg)) X_test)),
      cosine_similarity = (\<lambda>A B. Inr (map (\<lambda>a. map (\<lambda>b. sum_list (map2 (*) a b)) B) A)),
      argsort = stable_argsort\<rparr>"

definition subjects_5x2 :: "real matrix list" where
  \<comment> \<open>three subjects with 5 time points and 2 regions each\<close>
  "subjects_5x2 = [replicate 5 [1, 0], replicate 5 [0, 1], replicate 5 [1, 1]]"

definition target_5x2 :: "real matrix" where
  "target_5x2 = replicate 5 [1, 1]"

definition subjects_1x268 :: "real matrix list" where
  \<comment> \<open>two subjects with a single time point and 268 regions each\<close>
  "subjects_1x268 = [[replicate 268 1], [replicate 268 2]]"

definition target_1310x100 :: "real matrix" where
  "target_1310x100 = replicate 1310 (replicate 100 1)"

definition subjects_1310x268 :: "real matrix list" where
  \<comment> \<open>two subjects with 1310 time points and 268 regions each\<close>
  "subjects_1310x268 = [replicate 1310 (replicate 268 1), replicate 1310 (replicate 268 2)]"

section \<open>Properties\<close>

subsection \<open>Properties of \<open>clean_text\<close>\<close>

lemma re_sub_runs_filter: "re_sub_runs cls s = filter cls s"
proof (induction cls s rule: re_sub_runs.induct)
  case (1 cls)
  show ?case by simp
next
  case (2 cls c cs)
  have drop_eq: "filter cls (dropWhile (\<lambda>d. \<not> cls d) cs) = filter cls cs"
    by (induction cs) auto
  show ?case
  proof (cases "cls c")
    case True
    with 2 show ?thesis by simp
  next
    case False
    with 2 drop_eq show ?thesis by simp
  qed
qed

text \<open>
  C8 (as amended). The cleaner keeps exactly the characters \<open>A-Z\<close>, \<open>a-z\<close>, the space
  and the apostrophe, in their order, and lower-cases the letters; every other
  character is removed.
\<close>

theorem clean_text_keeps_class:
  "clean_text text =
     map lower_char
       (filter (\<lambda>c. is_upper c \<or> is_lower c \<or> c = CHR '' '' \<or> c = apostrophe) text)"
  unfolding clean_text_def re_sub_runs_filter in_class_def ..

text \<open>
  C8 as stated fails: the space is outside the Latin alphabet and is not the apostrophe,
  yet it survives cleaning.
\<close>

theorem clean_text_space_survives:
  "clean_text ''Hi, you!'' = ''hi you'' \<and> spec_clean_text ''Hi, you!'' = ''hiyou''"
  by code_simp

subsection \<open>Properties of \<open>get_glove_model\<close>\<close>

lemma those_map_length: "those (map pf vals) = Some v \<Longrightarrow> length v = length vals"
  by (induction vals arbitrary: v) (auto split: option.splits)

lemma load_lines_ok_iff:
  "(\<exists>m'. load_lines pf f m ls = Inr m') \<longleftrightarrow> (\<forall>l\<in>set ls. line_ok pf (f l))"
  by (induction ls arbitrary: m) (auto simp: line_ok_def split: list.splits option.splits)

lemma load_lines_entries:
  "load_lines pf f m ls = Inr m' \<Longrightarrow> m' tok = Some v \<Longrightarrow>
     m tok = Some v \<or> (\<exists>l\<in>set ls. \<exists>vals. f l = tok # vals \<and> those (map pf vals) = Some v)"
proof (induction ls arbitrary: m)
  case Nil
  then show ?case by simp
next
  case (Cons l ls)
  from Cons.prems(1) obtain t vals w where
    fl: "f l = t # vals" and th: "those (map pf vals) = Some w"
    and rest: "load_lines pf f (m(t \<mapsto> w)) ls = Inr m'"
    by (auto split: list.splits option.splits)
  from Cons.IH [OF rest Cons.prems(2)] show ?case
  proof
    assume "(m(t \<mapsto> w)) tok = Some v"
    then show ?thesis using fl th by (auto split: if_splits)
  next
    assume "\<exists>l\<in>set ls. \<exists>vals. f l = tok # vals \<and> those (map pf vals) = Some v"
    then show ?thesis by auto
  qed
qed

lemma load_lines_dom:
  "load_lines pf f m ls = Inr m' \<Longrightarrow> k \<in> dom m \<or> (\<exists>l\<in>set ls. hd (f l) = k) \<Longrightarrow> k \<in> dom m'"
proof (induction ls arbitrary: m)
  case Nil
  then show ?case by simp
next
  case (Cons l ls)
  from Cons.prems(1) obtain t vals w where
    fl: "f l = t # vals" and th: "those (map pf vals) = Some w"
    and rest: "load_lines pf f (m(t \<mapsto> w)) ls = Inr m'"
    by (auto split: list.splits option.splits)
  from Cons.prems(2) fl have "k \<in> dom (m(t \<mapsto> w)) \<or> (\<exists>l\<in>set ls. hd (f l) = k)"
    by auto
  with Cons.IH [OF rest] show ?case .
qed

text \<open>
  C7 (as amended). The loader skips nothing and checks no dimension. It returns a
  mapping exactly when every line of the resource splits into a token followed by fields
  that \<open>float\<close> reads (otherwise the first offending line raises and the load is
  aborted); then every line's token is a key, and every key carries the values of one
  of its lines, as many as that line has.
\<close>

theorem get_glove_model_loads_every_line:
  "((\<exists>m. get_glove_model pf url content = Inr m) \<longleftrightarrow>
      (\<forall>l\<in>set (resource_lines url content). line_ok pf (split_line url l)))
   \<and> (get_glove_model pf url content = Inr m \<longrightarrow>
        (\<forall>l\<in>set (resource_lines url content). hd (split_line url l) \<in> dom m)
        \<and> (\<forall>tok v. m tok = Some v \<longrightarrow>
             (\<exists>l\<in>set (resource_lines url content). \<exists>vals.
                split_line url l = tok # vals \<and> those (map pf vals) = Some v
                \<and> length v = length vals)))"
proof (intro conjI impI allI)
  show "(\<exists>m. get_glove_model pf url content = Inr m) \<longleftrightarrow>
      (\<forall>l\<in>set (resource_lines url content). line_ok pf (split_line url l))"
    unfolding get_glove_model_def by (rule load_lines_ok_iff)
next
  assume ok: "get_glove_model pf url content = Inr m"
  show "\<forall>l\<in>set (resource_lines url content). hd (split_line url l) \<in> dom m"
  proof
    fix l assume "l \<in> set (resource_lines url content)"
    then have "\<exists>l'\<in>set (resource_lines url content).
        hd (split_line url l') = hd (split_line url l)"
      by blast
    with load_lines_dom [OF ok [unfolded get_glove_model_def]]
    show "hd (split_line url l) \<in> dom m" by blast
  qed
next
  fix tok v
  assume ok: "get_glove_model pf url content = Inr m" and tv: "m tok = Some v"
  from load_lines_entries [OF ok [unfolded get_glove_model_def] tv]
  show "\<exists>l\<in>set (resource_lines url content). \<exists>vals.
                split_line url l = tok # vals \<and> those (map pf vals) = Some v
                \<and> length v = length vals"
    using those_map_length by fastforce
qed

text \<open>
  A run of the theorem: a local file of one line, with a reader of the field \<open>1\<close> in
  the place of \<open>float\<close>.
\<close>

theorem get_glove_model_loads_every_line_witness:
  "get_glove_model (\<lambda>s. if s = ''1'' then Some (1::nat) else None) ''glove.txt'' ''a 1 1''
     = Inr [''a'' \<mapsto> [1, 1]]
   \<and> resource_lines ''glove.txt'' ''a 1 1'' = [''a 1 1'']
   \<and> line_ok (\<lambda>s. if s = ''1'' then Some (1::nat) else None) (split_line ''glove.txt'' ''a 1 1'')
   \<and> ''a'' \<in> dom [''a'' \<mapsto> [1, 1 :: nat]]"
proof -
  let ?pf = "\<lambda>s. if s = ''1'' then Some (1::nat) else None"
  have run: "get_glove_model ?pf ''glove.txt'' ''a 1 1'' = Inr [''a'' \<mapsto> [1, 1]]"
    by (simp add: get_glove_model_def resource_lines_def is_http_def file_lines_def
        split_line_def is_space_def)
  have lines: "resource_lines ''glove.txt'' ''a 1 1'' = [''a 1 1'']"
    by (simp add: resource_lines_def is_http_def file_lines_def)
  from get_glove_model_loads_every_line
    [of ?pf "''glove.txt''" "''a 1 1''" "[''a'' \<mapsto> [1, 1]]"] run lines
  show ?thesis by auto
qed

text \<open>
  C7 as stated fails on both counts. A line holding a token and no value is loaded, with
  a vector of length 0, not of the dimension 100 of the table; and a line with a field
  that is not a number is not skipped: it aborts the load. (Neither input has a field
  that \<open>float\<close> reads, so the reader that rejects every field agrees with \<open>float\<close> on
  them.)
\<close>

theorem glove_short_row_and_abort:
  "get_glove_model (\<lambda>_. None :: real option) ''http://host/glove.txt'' ''cat''
     = Inr [''cat'' \<mapsto> []]
   \<and> get_glove_model (\<lambda>_. None :: real option) ''http://host/glove.txt'' ''cat x''
     = Inl ValueError"
  by (simp add: get_glove_model_def resource_lines_def is_http_def split_line_def)

subsection \<open>Properties of \<open>downsample_embeddings\<close>\<close>

lemma sorted_hd_Min: "sorted xs \<Longrightarrow> xs \<noteq> [] \<Longrightarrow> hd xs = Min (set xs)"
  by (cases xs) (auto intro: Min_eqI [symmetric])

lemma sorted_last_Max: "sorted xs \<Longrightarrow> xs \<noteq> [] \<Longrightarrow> last xs = Max (set xs)"
proof (induction xs)
  case Nil
  then show ?case by simp
next
  case (Cons a xs)
  show ?case
  proof (cases "xs = []")
    case True
    then show ?thesis by simp
  next
    case False
    with Cons have "last xs = Max (set xs)" by simp
    moreover from Cons.prems False have "a \<le> Max (set xs)"
      by (metis List.finite_set Max_ge hd_in_set order_trans sorted_simps(2))
    ultimately show ?thesis using False by (simp add: max_def)
  qed
qed

lemma np_arange_bounds:
  assumes "v \<in> set (np_arange a b)"
  shows "a \<le> v \<and> v < b"
proof -
  from assms obtain k where k: "k < nat \<lceil>b - a\<rceil>" and v: "v = a + real k"
    by (auto simp: np_arange_def)
  from k have "int k < \<lceil>b - a\<rceil>" by linarith
  then have "real k < b - a" by (simp add: less_ceiling_iff)
  with v show ?thesis by simp
qed

lemma length_np_arange: "length (np_arange a b) = nat \<lceil>b - a\<rceil>"
  by (simp add: np_arange_def)

lemma sorted_points:
  assumes "x \<noteq> []" "length x = length y"
  shows "fst (hd (sort_key fst (zip x y))) = Min (set x)"
    and "fst (last (sort_key fst (zip x y))) = Max (set x)"
proof -
  let ?pts = "sort_key fst (zip x y)"
  have ne: "?pts \<noteq> []" using assms by (cases x; cases y) (auto simp: insort_is_Cons)
  have srt: "sorted (map fst ?pts)" by simp
  have "set (map fst ?pts) = fst ` set (zip x y)" by simp
  also have "\<dots> = set (map fst (zip x y))" by simp
  also have "\<dots> = set x" using assms(2) by (simp only: map_fst_zip)
  finally have st: "set (map fst ?pts) = set x" .
  have "fst (hd ?pts) = hd (map fst ?pts)" using ne by (simp add: hd_map)
  also have "\<dots> = Min (set (map fst ?pts))" using srt ne by (intro sorted_hd_Min) auto
  finally show "fst (hd ?pts) = Min (set x)" using st by simp
  have "fst (last ?pts) = last (map fst ?pts)" using ne by (simp add: last_map)
  also have "\<dots> = Max (set (map fst ?pts))" using srt ne by (intro sorted_last_Max) auto
  finally show "fst (last ?pts) = Max (set x)" using st by simp
qed

text \<open>The sampling times lie between the first and the last onset, so the interpolation
  never refuses them.\<close>

lemma interp1d_arange:
  assumes "x \<noteq> []" "length x = length y"
  shows "interp1d x y (np_arange (Min (set x)) (Max (set x)))
           = Inr (map (interp_row (sort_key fst (zip x y))) (np_arange (Min (set x)) (Max (set x))))"
proof -
  have "\<not> list_ex (\<lambda>v. v < Min (set x) \<or> Max (set x) < v) (np_arange (Min (set x)) (Max (set x)))"
    using np_arange_bounds by (fastforce simp: list_ex_iff)
  then show ?thesis
    using assms by (simp add: interp1d_def Let_def sorted_points)
qed

lemma sequence_results_Inr: "sequence_results (map (\<lambda>x. Inr (g x)) xs) = Inr (map g xs)"
  by (induction xs) auto

lemma sequence_results_Inl:
  "xs \<noteq> [] \<Longrightarrow> \<forall>x\<in>set xs. f x = Inl e \<Longrightarrow> sequence_results (map f xs) = Inl e"
  by (cases xs) auto

lemma length_columns: "length (columns c M) = c"
  by (simp add: columns_def)

lemma columns_rows_length: "r \<in> set (columns c M) \<Longrightarrow> length r = length M"
  by (auto simp: columns_def)

lemma take_convolve:
  "take (length a)
     (map (\<lambda>n. \<Sum>m\<leftarrow>[0..<length a]. if m \<le> n \<and> n - m < length v then a ! m * v ! (n - m) else (0::real))
        [0..<length a + length v - 1])
   = map (\<lambda>n. \<Sum>m\<leftarrow>[0..<length a]. if m \<le> n \<and> n - m < length v then a ! m * v ! (n - m) else 0)
        [0..<length a]" if "v \<noteq> []"
proof -
  from that have "length a \<le> length a + length v - 1" by (cases v) auto
  then show ?thesis by (simp add: take_map min_def)
qed

text \<open>
  Every way through \<open>downsample_embeddings\<close>: it raises on an empty table, on a table
  whose embedding block does not have 100 columns, and on an empty kernel; otherwise it
  returns the padded signal, convolved column by column when asked to.
\<close>

lemma downsample_embeddings_cases:
  "downsample_embeddings hrf tbl c =
     (if tbl = [] \<or> ncols (map embedding tbl) \<noteq> 100 \<or> (c \<and> hrf = []) then Inl ValueError
      else Inr (let padded = np_zeros 5 n_dims @ interpolated tbl @ np_zeros 2 n_dims
                in if c then convolve_columns hrf padded else padded))"
proof (cases "tbl = []")
  case True
  then show ?thesis by (simp add: downsample_embeddings_def interp1d_def)
next
  case ne: False
  let ?x = "map onset tbl" and ?y = "map embedding tbl"
  have ip: "interp1d ?x ?y (np_arange (Min (set ?x)) (Max (set ?x)))
      = Inr (map (interp_row (sort_key fst (zip ?x ?y))) (np_arange (Min (set ?x)) (Max (set ?x))))"
    using ne by (intro interp1d_arange) auto
  show ?thesis
  proof (cases "ncols ?y = 100")
    case False
    then show ?thesis
      using ne ip by (auto simp: downsample_embeddings_def np_concatenate_def n_feature_def n_dims_def)
  next
    case c100: True
    let ?padded = "np_zeros 5 n_dims @ interpolated tbl @ np_zeros 2 n_dims"
    have cat: "np_concatenate [(n_feature, np_zeros 5 n_feature),
         (ncols ?y, nan_to_num (map (interp_row (sort_key fst (zip ?x ?y)))
                                  (np_arange (Min (set ?x)) (Max (set ?x))))),
         (n_dims, np_zeros 2 n_dims)] = Inr ?padded"
      using c100 by (simp add: np_concatenate_def n_feature_def n_dims_def interpolated_def)
    show ?thesis
    proof (cases c)
      case False
      then show ?thesis using ne c100 ip cat by (simp add: downsample_embeddings_def)
    next
      case conv: True
      have pne: "?padded \<noteq> []" by (simp add: np_zeros_def)
      have cne: "columns n_dims ?padded \<noteq> []"
        using length_columns [of n_dims ?padded] by (auto simp: n_dims_def)
      show ?thesis
      proof (cases "hrf = []")
        case True
        have "sequence_results (map (\<lambda>x. map_sum id (take (length x)) (np_convolve x hrf))
            (columns n_dims ?padded)) = Inl ValueError"
          using cne True by (intro sequence_results_Inl) (auto simp: np_convolve_def)
        then show ?thesis using ne c100 ip cat conv True by (simp add: downsample_embeddings_def)
      next
        case hne: False
        have "map (\<lambda>x. map_sum id (take (length x)) (np_convolve x hrf)) (columns n_dims ?padded)
            = map (\<lambda>x. Inr (map (\<lambda>n. \<Sum>m\<leftarrow>[0..<length x].
                        if m \<le> n \<and> n - m < length hrf then x ! m * hrf ! (n - m) else 0)
                      [0..<length x]))
                (columns n_dims ?padded)"
        proof (rule map_cong [OF refl])
          fix x assume "x \<in> set (columns n_dims ?padded)"
          then have "length x = length ?padded" by (rule columns_rows_length)
          with pne have "x \<noteq> []" by auto
          then show "map_sum id (take (length x)) (np_convolve x hrf)
            = Inr (map (\<lambda>n. \<Sum>m\<leftarrow>[0..<length x].
                        if m \<le> n \<and> n - m < length hrf then x ! m * hrf ! (n - m) else 0)
                     [0..<length x])"
            using hne take_convolve [OF hne, of x] by (simp add: np_convolve_def)
        qed
        then have "sequence_results (map (\<lambda>x. map_sum id (take (length x)) (np_convolve x hrf))
            (columns n_dims ?padded))
            = Inr (map (\<lambda>x. map (\<lambda>n. \<Sum>m\<leftarrow>[0..<length x].
                        if m \<le> n \<and> n - m < length hrf then x ! m * hrf ! (n - m) else 0)
                      [0..<length x])
                (columns n_dims ?padded))"
          by (simp only: sequence_results_Inr)
        then show ?thesis using ne c100 ip cat conv hne
          by (simp add: downsample_embeddings_def convolve_columns_def)
      qed
    qed
  qed
qed

lemma length_interpolated:
  "length (interpolated tbl) = nat \<lceil>Max (set (map onset tbl)) - Min (set (map onset tbl))\<rceil>"
  by (simp add: interpolated_def nan_to_num_def length_np_arange)

lemma length_convolve_columns: "length (convolve_columns hrf P) = length P"
  by (simp add: convolve_columns_def length_columns)

lemma downsample_embeddings_length:
  assumes "downsample_embeddings hrf tbl c = Inr M"
  shows "length M = nat \<lceil>Max (set (map onset tbl)) - Min (set (map onset tbl))\<rceil> + 5 + 2"
proof -
  from assms have "M = (let padded = np_zeros 5 n_dims @ interpolated tbl @ np_zeros 2 n_dims
                in if c then convolve_columns hrf padded else padded)"
    unfolding downsample_embeddings_cases by (simp split: if_splits)
  then show ?thesis
    by (simp add: Let_def length_convolve_columns length_interpolated np_zeros_def)
qed

lemma tbl_half_runs: "\<exists>M. downsample_embeddings [0, 1] tbl_half True = Inr M"
  unfolding downsample_embeddings_cases by (simp add: tbl_half_def ncols_def)

lemma tbl_whole_runs: "\<exists>M. downsample_embeddings [0, 1] tbl_whole True = Inr M"
  unfolding downsample_embeddings_cases by (simp add: tbl_whole_def ncols_def)

text \<open>
  C3 (as amended). Whenever the resampler returns, the number of rows of its output is
  \<open>\<lceil>max_onset - min_onset\<rceil>\<close> plus the 5 leading and the 2 trailing pad rows: it depends on
  the first and the last onset of the words that are left in the table, and on nothing
  else.
\<close>

theorem downsample_embeddings_output_length:
  "downsample_embeddings hrf tbl c = Inr M \<Longrightarrow>
     length M = nat \<lceil>Max (set (map onset tbl)) - Min (set (map onset tbl))\<rceil> + 5 + 2"
  by (rule downsample_embeddings_length)

theorem downsample_embeddings_output_length_witness:
  "map_sum id length (downsample_embeddings [0, 1] tbl_whole True) = Inr 10"
proof -
  from tbl_whole_runs obtain M where M: "downsample_embeddings [0, 1] tbl_whole True = Inr M" ..
  from downsample_embeddings_output_length [OF M] have "length M = 10"
    by (simp add: tbl_whole_def)
  with M show ?thesis by simp
qed

text \<open>
  C3 as stated fails: with the onsets 0.5 and 2.5 the output has
  \<open>\<lceil>2.5 - 0.5\<rceil> + 7 = 9\<close> rows, and \<open>\<lceil>2.5\<rceil> - \<lfloor>0.5\<rfloor> + 7 = 10\<close> are claimed.
\<close>

theorem resampled_length_differs_from_spec:
  "map_sum id length (downsample_embeddings [0, 1] tbl_half True) = Inr 9
   \<and> spec_resampled_length tbl_half = 10"
proof -
  from tbl_half_runs obtain M where M: "downsample_embeddings [0, 1] tbl_half True = Inr M" ..
  from downsample_embeddings_length [OF M] have "length M = 9" by (simp add: tbl_half_def)
  with M show ?thesis by (simp add: spec_resampled_length_def tbl_half_def)
qed

text \<open>
  C10. The leading pad takes its width from \<open>n_feature = 100\<close> and the trailing pad is
  written with 100 columns, so the concatenation, and with it the function, fails for
  every table whose embedding block does not have exactly 100 columns; a table of 100
  columns is resampled (given a kernel to convolve with). The signal before
  convolution is 5 zero rows, the interpolated rows, and 2 zero rows.
\<close>

theorem downsample_embeddings_requires_100_columns:
  "(ncols (map embedding tbl) \<noteq> 100 \<longrightarrow> downsample_embeddings hrf tbl c = Inl ValueError)
   \<and> (tbl \<noteq> [] \<and> ncols (map embedding tbl) = 100 \<and> (c \<longrightarrow> hrf \<noteq> []) \<longrightarrow>
        (\<exists>M. downsample_embeddings hrf tbl c = Inr M))
   \<and> (downsample_embeddings hrf tbl False = Inr M \<longrightarrow>
        M = replicate 5 (replicate 100 0) @ interpolated tbl @ replicate 2 (replicate 100 0))
   \<and> (downsample_embeddings hrf tbl True = Inr M \<longrightarrow>
        M = convolve_columns hrf
              (replicate 5 (replicate 100 0) @ interpolated tbl @ replicate 2 (replicate 100 0)))"
  unfolding downsample_embeddings_cases
  by (simp add: np_zeros_def n_dims_def split: if_splits)

theorem downsample_embeddings_requires_100_columns_witness:
  "ncols (map embedding tbl_narrow) \<noteq> 100
   \<and> downsample_embeddings [0, 1] tbl_narrow True = Inl ValueError
   \<and> tbl_whole \<noteq> [] \<and> ncols (map embedding tbl_whole) = 100
   \<and> downsample_embeddings [0, 1] tbl_whole False
       = Inr (replicate 5 (replicate 100 0) @ interpolated tbl_whole @ replicate 2 (replicate 100 0))"
proof -
  have narrow: "ncols (map embedding tbl_narrow) \<noteq> 100"
    by (simp add: tbl_narrow_def ncols_def)
  have whole: "tbl_whole \<noteq> []" "ncols (map embedding tbl_whole) = 100"
    by (simp_all add: tbl_whole_def ncols_def)
  from downsample_embeddings_requires_100_columns [of tbl_narrow "[0, 1]" True] narrow
  have 1: "downsample_embeddings [0, 1] tbl_narrow True = Inl ValueError" by blast
  from downsample_embeddings_requires_100_columns [of tbl_whole "[0, 1]" False] whole
  obtain M where M: "downsample_embeddings [0, 1] tbl_whole False = Inr M" by blast
  with downsample_embeddings_requires_100_columns [of tbl_whole "[0, 1]" False M]
  have "M = replicate 5 (replicate 100 0) @ interpolated tbl_whole @ replicate 2 (replicate 100 0)"
    by blast
  with M narrow whole 1 show ?thesis by simp
qed

subsection \<open>Properties of the decoding loop\<close>

lemma n_trs_pos: "0 < n_trs"
  by (simp add: n_trs_def)

lemma length_np_zeros: "length (np_zeros r c) = r"
  by (simp add: np_zeros_def)

lemma np_zeros_add: "np_zeros (a + b) c = np_zeros a c @ np_zeros b c"
  by (simp add: np_zeros_def replicate_add)

lemma length_broadcast_value: "length (broadcast_value r c V) = r"
  by (simp add: broadcast_value_def)

lemma has_shape_ncols: "has_shape r c M \<Longrightarrow> 0 < r \<Longrightarrow> ncols M = c"
  by (cases M) (auto simp: has_shape_def ncols_def)

lemma has_shape_broadcastable: "has_shape r c M \<Longrightarrow> 0 < r \<Longrightarrow> broadcastable r c M"
  by (simp add: broadcastable_def has_shape_ncols) (simp add: has_shape_def)

lemma broadcast_value_exact:
  assumes "has_shape r c M" "0 < r"
  shows "broadcast_value r c M = M"
proof (rule nth_equalityI)
  show "length (broadcast_value r c M) = length M"
    using assms by (simp add: length_broadcast_value has_shape_def)
next
  fix i assume "i < length (broadcast_value r c M)"
  then have i: "i < r" by (simp add: length_broadcast_value)
  from assms have len: "length M = r" and nc: "ncols M = c"
    by (simp_all add: has_shape_def has_shape_ncols)
  from assms i have row: "length (M ! i) = c"
    by (simp add: has_shape_def list_all_length)
  have i0: "M ! (if length M = 1 then 0 else i) = M ! i" using i len by auto
  have "broadcast_value r c M ! i
      = map (\<lambda>j. M ! (if length M = 1 then 0 else i) ! (if ncols M = 1 then 0 else j)) [0..<c]"
    using i by (simp add: broadcast_value_def)
  also have "\<dots> = map (\<lambda>j. M ! i ! (if c = 1 then 0 else j)) [0..<c]"
    unfolding i0 nc ..
  also have "\<dots> = M ! i"
    using row by (intro nth_equalityI) auto
  finally show "broadcast_value r c M ! i = M ! i" .
qed

lemma assign_rows_block:
  assumes "length P = lo" "length Z = hi - lo" "lo \<le> hi"
  shows "assign_rows (P @ Z @ R) c lo hi V =
           (if broadcastable (hi - lo) c V then Inr (P @ broadcast_value (hi - lo) c V @ R)
            else Inl ValueError)"
proof -
  have l: "min lo (length (P @ Z @ R)) = lo" using assms by simp
  have h: "max lo (min hi (length (P @ Z @ R))) = hi" using assms by auto
  have tk: "take lo (P @ Z @ R) = P" using assms by simp
  have dr: "drop hi (P @ Z @ R) = R" using assms by simp
  show ?thesis
    unfolding assign_rows_def Let_def l h tk dr by simp
qed

lemma fill_train_broadcast:
  assumes "broadcastable n_trs n_dims Y"
    and "\<forall>k\<in>set rest. k < length X \<and> broadcastable n_trs n_rois (X ! k)"
    and "length PX = i * n_trs" "length PY = i * n_trs"
  shows "fill_train X Y i rest
           (PX @ np_zeros (n_trs * length rest) n_rois, PY @ np_zeros (n_trs * length rest) n_dims)
         = Inr (PX @ concat (map (\<lambda>k. broadcast_value n_trs n_rois (X ! k)) rest),
                PY @ concat (replicate (length rest) (broadcast_value n_trs n_dims Y)))"
  using assms(2-)
proof (induction rest arbitrary: i PX PY)
  case Nil
  then show ?case by (simp add: np_zeros_def)
next
  case (Cons idx rest)
  let ?BX = "broadcast_value n_trs n_rois (X ! idx)" and ?BY = "broadcast_value n_trs n_dims Y"
  have idx: "idx < length X" "broadcastable n_trs n_rois (X ! idx)" using Cons.prems(1) by auto
  have split: "np_zeros (n_trs * length (idx # rest)) c
      = np_zeros n_trs c @ np_zeros (n_trs * length rest) c" for c :: nat
    by (simp add: np_zeros_add [symmetric])
  have d: "Suc i * n_trs - i * n_trs = n_trs" by simp
  have ax: "assign_rows (PX @ np_zeros n_trs n_rois @ np_zeros (n_trs * length rest) n_rois)
              n_rois (i * n_trs) ((i + 1) * n_trs) (X ! idx)
            = Inr (PX @ ?BX @ np_zeros (n_trs * length rest) n_rois)"
    using idx(2) Cons.prems(2)
    by (subst assign_rows_block) (simp_all add: length_np_zeros d del: mult_Suc)
  have ay: "assign_rows (PY @ np_zeros n_trs n_dims @ np_zeros (n_trs * length rest) n_dims)
              n_dims (i * n_trs) ((i + 1) * n_trs) Y
            = Inr (PY @ ?BY @ np_zeros (n_trs * length rest) n_dims)"
    using assms(1) Cons.prems(3)
    by (subst assign_rows_block) (simp_all add: length_np_zeros d del: mult_Suc)
  have IH: "fill_train X Y (i + 1) rest
      ((PX @ ?BX) @ np_zeros (n_trs * length rest) n_rois,
       (PY @ ?BY) @ np_zeros (n_trs * length rest) n_dims)
      = Inr ((PX @ ?BX) @ concat (map (\<lambda>k. broadcast_value n_trs n_rois (X ! k)) rest),
             (PY @ ?BY) @ concat (replicate (length rest) ?BY))"
    using Cons.prems by (intro Cons.IH) (auto simp: length_broadcast_value)
  show ?case
    unfolding split fill_train.simps using idx(1) ax ay IH
    by (simp add: py_index_def)
qed

lemma assign_rows_head:
  assumes "length Z = hi"
  shows "assign_rows (Z @ R) c 0 hi V =
           (if broadcastable hi c V then Inr (broadcast_value hi c V @ R) else Inl ValueError)"
  using assign_rows_block [of "[]" 0 Z hi R c V] assms by simp

lemma build_train_broadcast:
  assumes "broadcastable n_trs n_dims Y"
    and "\<forall>k\<in>set train. k < length X \<and> broadcastable n_trs n_rois (X ! k)"
  shows "build_train X Y train
         = Inr (concat (map (\<lambda>k. broadcast_value n_trs n_rois (X ! k)) train),
                concat (replicate (length train) (broadcast_value n_trs n_dims Y)))"
  using fill_train_broadcast [OF assms, of "[]" 0 "[]"] by (simp add: build_train_def)

lemma build_train_exact:
  assumes Y: "has_shape n_trs n_dims Y"
    and X: "\<forall>k\<in>set train. k < length X \<and> has_shape n_trs n_rois (X ! k)"
  shows "build_train X Y train
         = Inr (concat (map (\<lambda>k. X ! k) train), concat (replicate (length train) Y))"
proof -
  have mp: "map (\<lambda>k. broadcast_value n_trs n_rois (X ! k)) train = map (\<lambda>k. X ! k) train"
    using X by (intro map_cong refl broadcast_value_exact n_trs_pos) auto
  have bY: "broadcast_value n_trs n_dims Y = Y"
    using Y by (intro broadcast_value_exact n_trs_pos)
  have "build_train X Y train
         = Inr (concat (map (\<lambda>k. broadcast_value n_trs n_rois (X ! k)) train),
                concat (replicate (length train) (broadcast_value n_trs n_dims Y)))"
    using X Y by (intro build_train_broadcast) (auto intro: has_shape_broadcastable n_trs_pos)
  then show ?thesis unfolding mp bY .
qed

lemma build_train_first_fails:
  assumes "length X \<le> idx \<or> \<not> broadcastable n_trs n_rois (X ! idx) \<or> \<not> broadcastable n_trs n_dims Y"
  shows "build_train X Y (idx # rest) = Inl (if length X \<le> idx then IndexError else ValueError)"
proof -
  have split: "np_zeros (n_trs * length (idx # rest)) c
      = np_zeros n_trs c @ np_zeros (n_trs * length rest) c" for c :: nat
    by (simp add: np_zeros_add [symmetric])
  show ?thesis
    unfolding build_train_def split fill_train.simps using assms
    by (auto simp: py_index_def assign_rows_head length_np_zeros)
qed

lemma leave_one_out_first:
  assumes "2 \<le> n"
  shows "leave_one_out n
     = Inr ((1 # [2..<n], [0]) # map (\<lambda>i. (filter (\<lambda>k. k \<noteq> i) [0..<n], [i])) [1..<n])"
proof -
  from assms have a: "[0..<n] = 0 # [1..<n]"
    by (simp add: upt_conv_Cons)
  from assms have "[1..<n] = 1 # [Suc 1..<n]" by (intro upt_conv_Cons) simp
  then have b: "[1..<n] = 1 # [2..<n]" by (simp only: Suc_1)
  have "filter (\<lambda>k. k \<noteq> 0) [1..<n] = [1..<n]" by (rule filter_True) auto
  then have "filter (\<lambda>k. k \<noteq> 0) [0..<n] = 1 # [2..<n]" using a b by simp
  moreover have "map F [0..<n] = F 0 # map F [1..<n]" for F :: "nat \<Rightarrow> nat list \<times> nat list"
    using arg_cong [OF a, of "map F"] by simp
  ultimately show ?thesis using assms by (simp add: leave_one_out_def)
qed

lemma loo_decode_first_fold_fails:
  assumes "\<not> broadcastable n_trs n_dims Y \<or> (\<forall>A\<in>set X. \<not> broadcastable n_trs n_rois A)"
  shows "loo_decode lib n_top X Y n
     = (init_state, Some (if 2 \<le> n \<and> length X \<le> 1 then IndexError else ValueError))"
proof (cases "2 \<le> n")
  case False
  then show ?thesis by (simp add: loo_decode_def leave_one_out_def)
next
  case True
  have fails: "length X \<le> 1 \<or> \<not> broadcastable n_trs n_rois (X ! 1) \<or> \<not> broadcastable n_trs n_dims Y"
    using assms by (cases "length X \<le> 1") auto
  have "build_train X Y (1 # [2..<n]) = Inl (if length X \<le> 1 then IndexError else ValueError)"
    by (rule build_train_first_fails [OF fails])
  then show ?thesis
    using True by (simp add: loo_decode_def leave_one_out_first fold_step_def)
qed

lemma length_filter_neq_upt: "i < n \<Longrightarrow> length (filter (\<lambda>k. k \<noteq> i) [0..<n]) = n - 1"
proof (induction n)
  case 0
  then show ?case by simp
next
  case (Suc n)
  show ?case
  proof (cases "i < n")
    case True
    with Suc.IH show ?thesis by simp
  next
    case False
    with Suc.prems have "i = n" by simp
    moreover have "filter (\<lambda>k. k \<noteq> n) [0..<n] = [0..<n]" by (rule filter_True) auto
    ultimately show ?thesis by simp
  qed
qed


lemma ncols_replicate: "0 < n \<Longrightarrow> ncols (replicate n r) = length r"
  by (cases n) (simp_all add: ncols_def)

lemma has_shape_replicate: "has_shape n (length r) (replicate n r)"
  by (simp add: has_shape_def list_all_iff)

lemma has_shape_concat:
  assumes "\<forall>M\<in>set Ms. has_shape r c M"
  shows "has_shape (length Ms * r) c (concat Ms)"
  using assms by (induction Ms) (auto simp: has_shape_def)

text \<open>
  C1 (as amended). The sizes are not parameters of the decoder: it is written for
  subject arrays of 1310 rows and 268 columns and a target of 1310 rows and 100 columns.
  For \<open>n \<ge> 2\<close> such subjects, the fold that holds out subject \<open>i\<close> trains on the rows of
  all other subjects, stacked in the order of the subjects (\<open>(n - 1) * 1310\<close> rows of 268
  columns), against the target stacked \<open>n - 1\<close> times, and runs the rest of the fold
  (fit, predict, score) with subject \<open>i\<close>'s own array as the test input; where the three
  library calls return, the fold appends the coefficients of the regression fitted on that
  training set, the similarity of its prediction for subject \<open>i\<close> with the target, and the
  number of hits.
\<close>

theorem loo_fold_trains_on_the_others:
  assumes "2 \<le> n" "n \<le> length X" "i < n"
    and "\<forall>k<n. has_shape 1310 268 (X ! k)" "has_shape 1310 100 Y"
  shows "map_sum id (\<lambda>splits. splits ! i) (leave_one_out n) = Inr (filter (\<lambda>k. k \<noteq> i) [0..<n], [i])
    \<and> build_train X Y (filter (\<lambda>k. k \<noteq> i) [0..<n])
        = Inr (concat (map (\<lambda>k. X ! k) (filter (\<lambda>k. k \<noteq> i) [0..<n])), concat (replicate (n - 1) Y))
    \<and> has_shape ((n - 1) * 1310) 268 (concat (map (\<lambda>k. X ! k) (filter (\<lambda>k. k \<noteq> i) [0..<n])))
    \<and> has_shape ((n - 1) * 1310) 100 (concat (replicate (n - 1) Y))
    \<and> fold_step lib n_top X Y st (filter (\<lambda>k. k \<noteq> i) [0..<n], [i])
        = fit_predict_score lib n_top st
            (concat (map (\<lambda>k. X ! k) (filter (\<lambda>k. k \<noteq> i) [0..<n])))
            (concat (replicate (n - 1) Y)) (X ! i) Y
    \<and> (\<forall>reg y_pred similarity.
          fit lib (concat (map (\<lambda>k. X ! k) (filter (\<lambda>k. k \<noteq> i) [0..<n])))
            (concat (replicate (n - 1) Y)) = Inr reg
          \<and> predict lib reg (X ! i) = Inr y_pred
          \<and> cosine_similarity lib y_pred Y = Inr similarity \<longrightarrow>
          fold_step lib n_top X Y st (filter (\<lambda>k. k \<noteq> i) [0..<n], [i])
            = (st\<lparr>map_coef := map_coef st @ [coef lib reg],
                  test_similarity := test_similarity st @ [similarity],
                  test_hit := test_hit st @ [count_hits (argsort lib) n_top similarity]\<rparr>, None))"
proof -
  let ?train = "filter (\<lambda>k. k \<noteq> i) [0..<n]"
  have len: "length ?train = n - 1" using assms(3) by (rule length_filter_neq_upt)
  have Y: "has_shape n_trs n_dims Y" using assms(5) by (simp add: n_trs_def n_dims_def)
  have X: "\<forall>k\<in>set ?train. k < length X \<and> has_shape n_trs n_rois (X ! k)"
    using assms(2,4) by (auto simp: n_trs_def n_rois_def)
  have split: "map_sum id (\<lambda>splits. splits ! i) (leave_one_out n) = Inr (?train, [i])"
    using assms(1,3) by (simp add: leave_one_out_def)
  have bt: "build_train X Y ?train = Inr (concat (map (\<lambda>k. X ! k) ?train), concat (replicate (n - 1) Y))"
    using build_train_exact [OF Y X] len by simp
  have sx: "has_shape ((n - 1) * 1310) 268 (concat (map (\<lambda>k. X ! k) ?train))"
    using has_shape_concat [of "map (\<lambda>k. X ! k) ?train" 1310 268] assms(4) len by auto
  have sy: "has_shape ((n - 1) * 1310) 100 (concat (replicate (n - 1) Y))"
    using has_shape_concat [of "replicate (n - 1) Y" 1310 100] assms(5) by auto
  have fs: "fold_step lib n_top X Y st (?train, [i])
        = fit_predict_score lib n_top st (concat (map (\<lambda>k. X ! k) ?train))
            (concat (replicate (n - 1) Y)) (X ! i) Y"
    using bt assms(2,3) by (simp add: fold_step_def py_index_def)
  have run: "\<forall>reg y_pred similarity.
          fit lib (concat (map (\<lambda>k. X ! k) ?train)) (concat (replicate (n - 1) Y)) = Inr reg
          \<and> predict lib reg (X ! i) = Inr y_pred
          \<and> cosine_similarity lib y_pred Y = Inr similarity \<longrightarrow>
          fold_step lib n_top X Y st (?train, [i])
            = (st\<lparr>map_coef := map_coef st @ [coef lib reg],
                  test_similarity := test_similarity st @ [similarity],
                  test_hit := test_hit st @ [count_hits (argsort lib) n_top similarity]\<rparr>, None)"
    unfolding fs by (simp add: fit_predict_score_def Let_def)
  from split bt sx sy fs run show ?thesis by blast
qed


lemma upt_2: "[0..<2] = [0, 1]"
  by (simp add: upt_rec)

lemma upt_3: "[0..<3] = [0, 1, 2]"
  by (simp add: upt_rec)

text \<open>
  A run of the theorem: two subjects of the notebook's sizes, holding out the first.
\<close>

theorem loo_fold_trains_on_the_others_witness:
  "build_train subjects_1310x268 target_1310x100 [1]
     = Inr (subjects_1310x268 ! 1, target_1310x100)
   \<and> has_shape 1310 268 (subjects_1310x268 ! 1)
   \<and> fold_step sample_lib 10 subjects_1310x268 target_1310x100 init_state ([1], [0])
     = fit_predict_score sample_lib 10 init_state (subjects_1310x268 ! 1) target_1310x100
         (subjects_1310x268 ! 0) target_1310x100"
proof -
  have X: "\<forall>k<2. has_shape 1310 268 (subjects_1310x268 ! k)"
    using has_shape_replicate [of 1310 "replicate 268 (1::real)"]
      has_shape_replicate [of 1310 "replicate 268 (2::real)"]
    by (auto simp: subjects_1310x268_def less_Suc_eq numeral_2_eq_2)
  have Y: "has_shape 1310 100 target_1310x100"
    using has_shape_replicate [of 1310 "replicate 100 (1::real)"] by (simp add: target_1310x100_def)
  have n: "(2::nat) \<le> 2" "2 \<le> length subjects_1310x268" "(0::nat) < 2"
    by (simp_all add: subjects_1310x268_def)
  have tr: "filter (\<lambda>k. k \<noteq> 0) [0..<2] = [1]" by (simp add: upt_2)
  from loo_fold_trains_on_the_others [OF n X Y, of sample_lib 10 init_state]
  show ?thesis unfolding tr by simp
qed

text \<open>
  C1 as stated fails for other sizes. In the scenario of three subjects with 5 time
  points and 2 regions and a target of 5 rows and 2 columns, the fold that holds out
  subject 0 has the training indices 1 and 2, and raises \<open>ValueError\<close> when the first
  block of 5 rows is assigned to a slice of 1310 rows: no design matrix is built.
\<close>

theorem fold_fails_on_5x2_scenario:
  "map_sum id (\<lambda>splits. splits ! 0) (leave_one_out 3) = Inr ([1, 2], [0])
   \<and> build_train subjects_5x2 target_5x2 [1, 2] = Inl ValueError
   \<and> fold_step sample_lib 1 subjects_5x2 target_5x2 init_state ([1, 2], [0])
       = (init_state, Some ValueError)"
proof -
  have "\<not> broadcastable n_trs n_dims target_5x2"
    by (simp add: broadcastable_def target_5x2_def n_trs_def)
  then have bt: "build_train subjects_5x2 target_5x2 (1 # [2]) = Inl ValueError"
    by (subst build_train_first_fails) (simp_all add: subjects_5x2_def)
  then show ?thesis
    by (simp add: leave_one_out_def upt_3 fold_step_def)
qed

text \<open>
  C6 (as amended). The decoder has no check of its own. When the target's number of
  rows is neither 1310 nor 1, or every subject's number of time points is neither 1310
  nor 1, the first block assignment of the first fold raises (\<open>ValueError\<close>; \<open>IndexError\<close>
  when \<open>X\<close> has fewer than two subjects), whatever the library routines do: nothing is
  fitted and the three result lists stay empty.
\<close>

theorem decoder_rejects_other_lengths:
  "(length Y \<noteq> 1310 \<and> length Y \<noteq> 1) \<or> (\<forall>A\<in>set X. length A \<noteq> 1310 \<and> length A \<noteq> 1) \<Longrightarrow>
     loo_decode lib n_top X Y n_sub
       = (init_state, Some (if 2 \<le> n_sub \<and> length X \<le> 1 then IndexError else ValueError))"
  by (rule loo_decode_first_fold_fails) (auto simp: broadcastable_def n_trs_def)

text \<open>
  A run of the theorem: the scenario of 5 time points.
\<close>

theorem decoder_rejects_other_lengths_witness:
  "length target_5x2 \<noteq> 1310 \<and> length target_5x2 \<noteq> 1
   \<and> loo_decode sample_lib 1 subjects_5x2 target_5x2 3 = (init_state, Some ValueError)"
proof -
  have h: "length target_5x2 \<noteq> 1310 \<and> length target_5x2 \<noteq> 1" by (simp add: target_5x2_def)
  then have "(length target_5x2 \<noteq> 1310 \<and> length target_5x2 \<noteq> 1)
      \<or> (\<forall>A\<in>set subjects_5x2. length A \<noteq> 1310 \<and> length A \<noteq> 1)" ..
  from decoder_rejects_other_lengths [OF this, of sample_lib 1 3] h
  show ?thesis by (simp add: subjects_5x2_def)
qed

lemma fit_predict_score_sample:
  "snd (fit_predict_score sample_lib n_top st A B C D) = None
   \<and> length (map_coef (fst (fit_predict_score sample_lib n_top st A B C D))) = Suc (length (map_coef st))"
  by (simp add: fit_predict_score_def sample_lib_def Let_def)

text \<open>
  C6 as stated fails: subjects with a single time point do not match a target of 1310
  rows, yet the single row is broadcast over the 1310 rows of each block, both folds are
  trained and no exception is raised.
\<close>

theorem one_row_subjects_are_broadcast:
  "snd (loo_decode sample_lib 10 subjects_1x268 target_1310x100 2) = None
   \<and> length (map_coef (fst (loo_decode sample_lib 10 subjects_1x268 target_1310x100 2))) = 2"
proof -
  let ?X = subjects_1x268 and ?Y = target_1310x100
  have Y: "broadcastable n_trs n_dims ?Y"
    by (simp add: broadcastable_def target_1310x100_def n_trs_def n_dims_def ncols_replicate)
  have X: "k < length ?X \<and> broadcastable n_trs n_rois (?X ! k)" if "k < 2" for k
    using that by (auto simp: subjects_1x268_def broadcastable_def ncols_def n_rois_def less_Suc_eq numeral_2_eq_2)
  have bt: "\<exists>T. build_train ?X ?Y [k] = Inr T" if "k < 2" for k
    using build_train_broadcast [OF Y, of "[k]" ?X] X [OF that] by simp
  from bt [of 1] obtain T1 where T1: "build_train ?X ?Y [1] = Inr T1" by auto
  from bt [of 0] obtain T0 where T0: "build_train ?X ?Y [0] = Inr T0" by auto
  obtain s1 where s1: "fold_step sample_lib 10 ?X ?Y init_state ([1], [0]) = (s1, None)"
    "length (map_coef s1) = 1"
    using T1 X [of 0] fit_predict_score_sample [of 10 init_state "fst T1" "snd T1" "?X ! 0" ?Y]
    by (cases T1) (auto simp: fold_step_def py_index_def init_state_def prod_eq_iff)
  obtain s2 where s2: "fold_step sample_lib 10 ?X ?Y s1 ([0], [1]) = (s2, None)"
    "length (map_coef s2) = 2"
    using T0 X [of 1] s1(2) fit_predict_score_sample [of 10 s1 "fst T0" "snd T0" "?X ! 1" ?Y]
    by (cases T0) (auto simp: fold_step_def py_index_def prod_eq_iff)
  have "loo_decode sample_lib 10 ?X ?Y 2 = (s2, None)"
    using s1(1) s2(1) by (simp add: loo_decode_def leave_one_out_def upt_2)
  with s2(2) show ?thesis by simp
qed

text \<open>
  C5 (as amended). Nothing compares the length of the resampled signal with \<open>n_TR\<close>,
  and the resampler returns a signal of any length. But its output has at least 7 rows,
  so when their number is not 1310 the first fold of the decoder stops at a block
  assignment: for every library, the pipeline ends with empty result lists, before any
  regression is fitted, and with the exception of that statement, \<open>ValueError\<close> from
  \<open>y_train[0:1310, :] = Y\<close> (or from an earlier statement), or \<open>IndexError\<close> when \<open>X\<close>
  holds fewer than two subjects. The standardisation \<open>zscore\<close> enters only through the
  fact that it keeps the number of rows.
\<close>

theorem misaligned_target_stops_pipeline:
  assumes "downsample_embeddings hrf tbl True = Inr E" "length E \<noteq> 1310"
    and "length (zscore E) = length E"
  shows "decoding_pipeline lib zscore hrf n_top X n_sub tbl
     = (init_state, Some (if 2 \<le> n_sub \<and> length X \<le> 1 then IndexError else ValueError))"
proof -
  from downsample_embeddings_length [OF assms(1)] have "length E \<noteq> 1" by simp
  with assms(2,3) have "\<not> broadcastable n_trs n_dims (zscore E)"
    by (simp add: broadcastable_def n_trs_def)
  then have "loo_decode lib n_top X (zscore E) n_sub
     = (init_state, Some (if 2 \<le> n_sub \<and> length X \<le> 1 then IndexError else ValueError))"
    by (intro loo_decode_first_fold_fails) simp
  with assms(1) show ?thesis by (simp add: decoding_pipeline_def)
qed

text \<open>
  A run of the theorem: a table of two words, resampled to 10 rows.
\<close>

theorem misaligned_target_stops_pipeline_witness:
  "map_sum id length (downsample_embeddings [0, 1] tbl_whole True) = Inr 10
   \<and> decoding_pipeline sample_lib (\<lambda>M. M) [0, 1] 10 subjects_1310x268 2 tbl_whole
       = (init_state, Some ValueError)"
proof -
  from tbl_whole_runs obtain E where E: "downsample_embeddings [0, 1] tbl_whole True = Inr E" ..
  from downsample_embeddings_length [OF E] have len: "length E = 10" by (simp add: tbl_whole_def)
  then have ne: "length E \<noteq> 1310" by simp
  from misaligned_target_stops_pipeline [OF E ne, of "\<lambda>M. M" sample_lib 10 subjects_1310x268 2]
  have "decoding_pipeline sample_lib (\<lambda>M. M) [0, 1] 10 subjects_1310x268 2 tbl_whole
       = (init_state, Some ValueError)"
    by (simp add: subjects_1310x268_def)
  with E len show ?thesis by simp
qed

lemma tbl_aligned_runs: "\<exists>M. downsample_embeddings [0, 1] tbl_aligned True = Inr M"
  unfolding downsample_embeddings_cases by (simp add: tbl_aligned_def ncols_def)

text \<open>
  C5 as stated fails: no exception of the pipeline reports a length mismatch. The
  resampler returns the signal of 10 rows without complaint; with that signal and an
  array \<open>X\<close> of one subject for two participants the pipeline stops with \<open>IndexError\<close>,
  raised by \<open>X[1, :, :]\<close>; and the \<open>ValueError\<close> with which it stops for other misaligned
  signals is also what it stops with for a signal of exactly 1310 rows when there is
  a single participant.
\<close>

theorem pipeline_error_is_not_a_length_check:
  "map_sum id length (downsample_embeddings [0, 1] tbl_whole True) = Inr 10
   \<and> decoding_pipeline sample_lib (\<lambda>M. M) [0, 1] 10 [replicate 1310 (replicate 268 1)] 2 tbl_whole
       = (init_state, Some IndexError)
   \<and> map_sum id length (downsample_embeddings [0, 1] tbl_aligned True) = Inr 1310
   \<and> decoding_pipeline sample_lib (\<lambda>M. M) [0, 1] 10 subjects_1310x268 1 tbl_aligned
       = (init_state, Some ValueError)"
proof -
  from tbl_whole_runs obtain E where E: "downsample_embeddings [0, 1] tbl_whole True = Inr E" ..
  from downsample_embeddings_length [OF E] have len: "length E = 10" by (simp add: tbl_whole_def)
  then have "\<not> broadcastable n_trs n_dims E" by (simp add: broadcastable_def n_trs_def)
  then have "loo_decode sample_lib 10 [replicate 1310 (replicate 268 1)] E 2
      = (init_state, Some IndexError)"
    by (subst loo_decode_first_fold_fails) simp_all
  with E have a: "decoding_pipeline sample_lib (\<lambda>M. M) [0, 1] 10
      [replicate 1310 (replicate 268 1)] 2 tbl_whole = (init_state, Some IndexError)"
    by (simp add: decoding_pipeline_def)
  from tbl_aligned_runs obtain F where F: "downsample_embeddings [0, 1] tbl_aligned True = Inr F" ..
  from downsample_embeddings_length [OF F] have lenF: "length F = 1310"
    by (simp add: tbl_aligned_def)
  have "loo_decode sample_lib 10 subjects_1310x268 F 1 = (init_state, Some ValueError)"
    by (simp add: loo_decode_def leave_one_out_def)
  with F have b: "decoding_pipeline sample_lib (\<lambda>M. M) [0, 1] 10 subjects_1310x268 1 tbl_aligned
      = (init_state, Some ValueError)"
    by (simp add: decoding_pipeline_def)
  from E len a F lenF b show ?thesis by simp
qed

subsection \<open>Properties of the scoring\<close>

lemma hit_loop_filter:
  "hit_loop asort K sim js h = h + length (filter (is_hit asort K sim) js)"
  by (induction js arbitrary: h) auto

lemma count_hits_filter:
  "count_hits asort K sim = length (filter (is_hit asort K sim) [0..<length sim])"
  by (simp add: count_hits_def hit_loop_filter)

lemma py_last_pos: "0 < K \<Longrightarrow> py_last K xs = drop (length xs - nat K) xs"
proof -
  assume "0 < K"
  then have "nat (max (- K + int (length xs)) 0) = length xs - nat K" by linarith
  with \<open>0 < K\<close> show ?thesis by (simp add: py_last_def Let_def)
qed

lemma count_through_argsort:
  assumes "mset p = mset [0..<length row]"
  shows "length (filter P row) = length (filter (\<lambda>k. P (row ! k)) p)"
proof -
  have "mset row = mset (map (\<lambda>k. row ! k) [0..<length row])" by (simp add: map_nth)
  also have "\<dots> = image_mset (\<lambda>k. row ! k) (mset p)" using assms by simp
  also have "\<dots> = mset (map (\<lambda>k. row ! k) p)" by simp
  finally have "mset (filter P row) = mset (filter P (map (\<lambda>k. row ! k) p))"
    by (simp only: mset_filter)
  then have "length (filter P row) = length (filter P (map (\<lambda>k. row ! k) p))"
    by (rule mset_eq_length)
  also have "\<dots> = length (filter (\<lambda>k. P (row ! k)) p)"
    by (simp add: filter_map comp_def)
  finally show ?thesis .
qed

lemma in_drop_distinct:
  assumes "distinct p" "m < length p"
  shows "p ! m \<in> set (drop d p) \<longleftrightarrow> d \<le> m"
proof
  assume "p ! m \<in> set (drop d p)"
  then obtain i where i: "i < length (drop d p)" "drop d p ! i = p ! m"
    by (auto simp: in_set_conv_nth)
  then have "p ! (d + i) = p ! m" "d + i < length p" by auto
  with assms have "d + i = m" by (simp add: nth_eq_iff_index_eq)
  then show "d \<le> m" by simp
next
  assume "d \<le> m"
  then have "p ! m = drop d p ! (m - d)" "m - d < length (drop d p)" using assms(2) by auto
  then show "p ! m \<in> set (drop d p)" by (metis nth_mem)
qed

text \<open>Where an index sits in the output of \<open>argsort\<close> bounds the two counts.\<close>

lemma position_bounds:
  assumes p: "mset p = mset [0..<length row]" and s: "sorted (map (\<lambda>i. row ! i) p)"
    and m: "m < length p"
  shows "count_above row (p ! m) \<le> length p - Suc m"
    and "length p - m \<le> count_not_below row (p ! m)"
proof -
  let ?v = "row ! (p ! m)"
  have split: "p = take m p @ p ! m # drop (Suc m) p" using m by (rule id_take_nth_drop)
  have before: "row ! k \<le> ?v" if "k \<in> set (take m p)" for k
  proof -
    from that obtain i where i: "i < m" "p ! i = k" using m by (auto simp: in_set_conv_nth)
    from s i m have "map (\<lambda>i. row ! i) p ! i \<le> map (\<lambda>i. row ! i) p ! m"
      by (intro sorted_nth_mono) auto
    with i m show ?thesis by simp
  qed
  have after: "?v \<le> row ! k" if "k \<in> set (drop (Suc m) p)" for k
  proof -
    from that obtain i where i: "i < length p - Suc m" "p ! (Suc m + i) = k"
      by (auto simp: in_set_conv_nth)
    from s i m have "map (\<lambda>i. row ! i) p ! m \<le> map (\<lambda>i. row ! i) p ! (Suc m + i)"
      by (intro sorted_nth_mono) auto
    with i m show ?thesis by simp
  qed
  have "count_above row (p ! m) = length (filter (\<lambda>k. ?v < row ! k) p)"
    unfolding count_above_def by (rule count_through_argsort [OF p])
  also have "\<dots> = length (filter (\<lambda>k. ?v < row ! k) (take m p @ p ! m # drop (Suc m) p))"
    using split by simp
  also have "\<dots> = length (filter (\<lambda>k. ?v < row ! k) (take m p))
      + length (filter (\<lambda>k. ?v < row ! k) (drop (Suc m) p))"
    by simp
  also have "filter (\<lambda>k. ?v < row ! k) (take m p) = []"
    using before by (auto simp: filter_empty_conv leD)
  finally have "count_above row (p ! m) = length (filter (\<lambda>k. ?v < row ! k) (drop (Suc m) p))"
    by simp
  also have "\<dots> \<le> length (drop (Suc m) p)" by (rule length_filter_le)
  finally show "count_above row (p ! m) \<le> length p - Suc m" by simp
  have "count_not_below row (p ! m) = length (filter (\<lambda>k. ?v \<le> row ! k) p)"
    unfolding count_not_below_def by (rule count_through_argsort [OF p])
  also have "\<dots> = length (filter (\<lambda>k. ?v \<le> row ! k) (take m p @ p ! m # drop (Suc m) p))"
    using split by simp
  also have "\<dots> = length (filter (\<lambda>k. ?v \<le> row ! k) (take m p)) + 1
      + length (filter (\<lambda>k. ?v \<le> row ! k) (drop (Suc m) p))"
    by simp
  also have "filter (\<lambda>k. ?v \<le> row ! k) (drop (Suc m) p) = drop (Suc m) p"
    using after by (intro filter_True) auto
  finally have "count_not_below row (p ! m)
      = length (filter (\<lambda>k. ?v \<le> row ! k) (take m p)) + 1 + (length p - Suc m)"
    by simp
  with m show "length p - m \<le> count_not_below row (p ! m)" by simp
qed

lemma argsort_perm:
  assumes "mset p = mset [0..<length row]"
  shows "length p = length row" "distinct p" "set p = {0..<length row}"
proof -
  from assms show "length p = length row" using mset_eq_length by fastforce
  from assms show "distinct p" by (metis distinct_upt mset_eq_imp_distinct_iff)
  from assms show "set p = {0..<length row}" by (metis mset_eq_setD set_upt)
qed

lemma hit_bounds:
  assumes a: "is_argsort asort" and K: "0 < K"
  shows "is_hit asort K sim t \<Longrightarrow> t < length (sim ! t) \<and> int (count_above (sim ! t) t) < K"
    and "t < length (sim ! t) \<Longrightarrow> int (count_not_below (sim ! t) t) \<le> K \<Longrightarrow> is_hit asort K sim t"
proof -
  let ?row = "sim ! t" and ?p = "asort (sim ! t)"
  from a have p: "mset ?p = mset [0..<length ?row]" and s: "sorted (map (\<lambda>i. ?row ! i) ?p)"
    by (simp_all add: is_argsort_def)
  note perm = argsort_perm [OF p]
  have hit: "is_hit asort K sim t \<longleftrightarrow> t \<in> set (drop (length ?row - nat K) ?p)"
    using K by (simp add: is_hit_def top_indices_def py_last_pos perm(1))
  {
    assume "is_hit asort K sim t"
    with hit have in_drop: "t \<in> set (drop (length ?row - nat K) ?p)" by simp
    then have "t \<in> set ?p" by (rule in_set_dropD)
    then obtain m where m: "m < length ?p" "?p ! m = t" by (auto simp: in_set_conv_nth)
    from in_drop m have "length ?row - nat K \<le> m"
      using in_drop_distinct [OF perm(2) m(1)] by simp
    moreover from position_bounds(1) [OF p s m(1)] m(2)
    have "count_above ?row t \<le> length ?row - Suc m" by (simp add: perm(1))
    ultimately have "int (count_above ?row t) < K" using m(1) K perm(1) by linarith
    moreover from \<open>t \<in> set ?p\<close> have "t < length ?row" by (simp add: perm(3))
    ultimately show "t < length ?row \<and> int (count_above ?row t) < K" by simp
  }
  {
    assume t: "t < length ?row" and c: "int (count_not_below ?row t) \<le> K"
    from t have "t \<in> set ?p" by (simp add: perm(3))
    then obtain m where m: "m < length ?p" "?p ! m = t" by (auto simp: in_set_conv_nth)
    from position_bounds(2) [OF p s m(1)] m(2)
    have "length ?row - m \<le> count_not_below ?row t" by (simp add: perm(1))
    with c have "length ?row - nat K \<le> m" by linarith
    with in_drop_distinct [OF perm(2) m(1)] m(2) hit
    show "is_hit asort K sim t" by simp
  }
qed

lemma count_not_below_distinct:
  assumes "distinct row" "t < length row"
  shows "count_not_below row t = Suc (count_above row t)"
proof -
  have "length (filter (\<lambda>v. a \<le> v) xs)
      = length (filter (\<lambda>v. a < v) xs) + length (filter (\<lambda>v. v = a) xs)" for a :: 'a and xs
    by (induction xs) auto
  moreover have "length (filter (\<lambda>v. v = row ! t) row) = 1"
  proof -
    have "length (filter (\<lambda>v. v = row ! t) row) = card ({v. v = row ! t} \<inter> set row)"
      using assms(1) by (rule distinct_length_filter)
    also have "{v. v = row ! t} \<inter> set row = {row ! t}" using assms(2) by auto
    finally show ?thesis by simp
  qed
  ultimately show ?thesis by (simp add: count_not_below_def count_above_def)
qed


lemma stable_argsort_is_argsort: "is_argsort stable_argsort"
  by (simp add: is_argsort_def stable_argsort_def)

text \<open>
  C2 (as amended). For a threshold \<open>K \<ge> 1\<close> and any \<open>argsort\<close> that meets its contract,
  the fold counts the time points \<open>t\<close> whose index is among the last \<open>K\<close> indices of the
  ascending order of row \<open>t\<close>. Such a \<open>t\<close> has fewer than \<open>K\<close> entries of its row above
  its own; a \<open>t\<close> with at most \<open>K\<close> entries of its row not below its own (itself
  counted) is a hit; so in a row without equal values, \<open>t\<close> is a hit exactly when fewer
  than \<open>K\<close> entries of row \<open>t\<close> exceed entry \<open>t\<close>. The accuracy of the fold, in percent, is
  the number of hits over 1310, whatever the number of rows of the similarity matrix.
\<close>

theorem top_k_hits:
  assumes "is_argsort asort" "0 < K"
  shows "count_hits asort K sim = length (filter (is_hit asort K sim) [0..<length sim])
    \<and> (\<forall>t. is_hit asort K sim t \<longrightarrow> spec_is_hit K sim t)
    \<and> (\<forall>t. t < length (sim ! t) \<and> int (count_not_below (sim ! t) t) \<le> K \<longrightarrow> is_hit asort K sim t)
    \<and> (\<forall>t. distinct (sim ! t) \<longrightarrow> is_hit asort K sim t = spec_is_hit K sim t)
    \<and> decoding_accuracy (count_hits asort K sim) = spec_accuracy (count_hits asort K sim) 1310"
proof (intro conjI allI impI)
  show "count_hits asort K sim = length (filter (is_hit asort K sim) [0..<length sim])"
    by (rule count_hits_filter)
next
  fix t assume "is_hit asort K sim t"
  with hit_bounds(1) [OF assms] show "spec_is_hit K sim t" by (simp add: spec_is_hit_def)
next
  fix t assume "t < length (sim ! t) \<and> int (count_not_below (sim ! t) t) \<le> K"
  with hit_bounds(2) [OF assms] show "is_hit asort K sim t" by blast
next
  fix t assume d: "distinct (sim ! t)"
  show "is_hit asort K sim t = spec_is_hit K sim t"
  proof
    assume "is_hit asort K sim t"
    with hit_bounds(1) [OF assms] show "spec_is_hit K sim t" by (simp add: spec_is_hit_def)
  next
    assume "spec_is_hit K sim t"
    then have t: "t < length (sim ! t)" and c: "int (count_above (sim ! t) t) < K"
      by (simp_all add: spec_is_hit_def)
    from count_not_below_distinct [OF d t] c have "int (count_not_below (sim ! t) t) \<le> K"
      by simp
    with hit_bounds(2) [OF assms t] show "is_hit asort K sim t" .
  qed
next
  show "decoding_accuracy (count_hits asort K sim) = spec_accuracy (count_hits asort K sim) 1310"
    by (simp add: decoding_accuracy_def spec_accuracy_def)
qed

lemma sample_similarity_hits:
  "\<not> is_hit stable_argsort 1 [[1, 3], [2, 5 :: real]] 0"
  "is_hit stable_argsort 1 [[1, 3], [2, 5 :: real]] 1"
  by (simp_all add: is_hit_def top_indices_def py_last_def stable_argsort_def upt_rec)

text \<open>
  A run of the theorem: two time points, \<open>K = 1\<close>, the stable \<open>argsort\<close>; the first time
  point is a miss and the second a hit.
\<close>

theorem top_k_hits_witness:
  "is_argsort (stable_argsort :: real list \<Rightarrow> nat list) \<and> (0::int) < 1
   \<and> count_hits stable_argsort 1 [[1, 3], [2, 5 :: real]] = 1
   \<and> is_hit stable_argsort 1 [[1, 3], [2, 5 :: real]] 1
   \<and> spec_is_hit 1 [[1, 3], [2, 5 :: real]] 1
   \<and> decoding_accuracy (count_hits stable_argsort 1 [[1, 3], [2, 5 :: real]]) = spec_accuracy 1 1310"
proof -
  have a: "is_argsort (stable_argsort :: real list \<Rightarrow> nat list)" by (rule stable_argsort_is_argsort)
  have k: "(0::int) < 1" by simp
  note inst = top_k_hits [OF a k, of "[[1, 3], [2, 5]]"]
  from inst have cnt: "count_hits stable_argsort 1 [[1, 3], [2, 5 :: real]] = 1"
    using sample_similarity_hits by (simp add: upt_rec)
  from inst sample_similarity_hits(2) have sp: "spec_is_hit 1 [[1, 3], [2, 5 :: real]] 1" by blast
  from inst cnt have "decoding_accuracy (count_hits stable_argsort 1 [[1, 3], [2, 5 :: real]])
      = spec_accuracy 1 1310" by simp
  with a k cnt sp sample_similarity_hits(2) show ?thesis by simp
qed

text \<open>
  C2 as stated fails in two places. A similarity matrix of a single time point (which the
  decoder reaches when subjects and target have one row each, broadcast over the 1310)
  with its one hit has the accuracy \<open>100 * 1 / 1310\<close> percent, not \<open>1 / T = 100\<close> percent.
  And for \<open>K = 0\<close> the slice \<open>[-0:]\<close> is the whole row, so every time point is a hit,
  also one whose entry is not the greatest of its row.
\<close>

theorem accuracy_over_1310_and_zero_k:
  "count_hits stable_argsort 1 [[1 :: real]] = 1
   \<and> decoding_accuracy 1 = 10 / 131 \<and> spec_accuracy 1 1 = 100
   \<and> is_hit stable_argsort 0 [[1, 2], [2, 1 :: real]] 0
   \<and> \<not> spec_is_hit 0 [[1, 2], [2, 1 :: real]] 0"
  by (simp add: count_hits_def is_hit_def top_indices_def py_last_def stable_argsort_def
      decoding_accuracy_def spec_accuracy_def spec_is_hit_def upt_rec)

subsection \<open>Properties of the scrambling baseline\<close>

lemma length_scramble: "length (scramble perm tbl) = length tbl"
  by (simp add: scramble_def)

lemma scramble_keeps_onsets:
  "map onset (scramble perm tbl) = map onset tbl" "map word (scramble perm tbl) = map word tbl"
  by (rule nth_equalityI; simp add: scramble_def)+

lemma scramble_embeddings:
  assumes "length perm = length tbl"
  shows "map embedding (scramble perm tbl) = map (\<lambda>k. embedding (tbl ! k)) perm"
  using assms by (intro nth_equalityI) (simp_all add: scramble_def)

lemma scramble_mset:
  assumes "mset perm = mset [0..<length tbl]"
  shows "mset (map embedding (scramble perm tbl)) = mset (map embedding tbl)"
proof -
  from assms have len: "length perm = length tbl" using mset_eq_length by fastforce
  have "mset (map embedding (scramble perm tbl)) = image_mset (\<lambda>k. embedding (tbl ! k)) (mset perm)"
    by (simp add: scramble_embeddings [OF len])
  also have "\<dots> = mset (map (\<lambda>k. embedding (tbl ! k)) [0..<length tbl])"
    using assms by simp
  also have "map (\<lambda>k. embedding (tbl ! k)) [0..<length tbl] = map embedding tbl"
    by (intro nth_equalityI) simp_all
  finally show ?thesis .
qed

lemma fold_step_scram_fold:
  "(case scram_fold lib K X Y sp of
      Inl e \<Rightarrow> snd (fold_step lib K X Y st sp) = Some e
    | Inr h \<Rightarrow> snd (fold_step lib K X Y st sp) = None
        \<and> test_hit (fst (fold_step lib K X Y st sp)) = test_hit st @ [h])"
  by (simp add: scram_fold_def fold_step_def fit_predict_score_def Let_def
      split: sum.splits prod.splits)

lemma run_folds_scram_folds:
  "(case run_folds (fold_step lib K X Y) st splits of
      (st', None) \<Rightarrow> (\<exists>hs. test_hit st' = test_hit st @ hs
                        \<and> scram_folds lib K X Y splits acc = Inr (acc @ hs))
    | (st', Some e) \<Rightarrow> scram_folds lib K X Y splits acc = Inl e)"
proof (induction splits arbitrary: st acc)
  case Nil
  then show ?case by simp
next
  case (Cons sp splits)
  obtain st1 r where fs: "fold_step lib K X Y st sp = (st1, r)" by (cases "fold_step lib K X Y st sp")
  show ?case
  proof (cases "scram_fold lib K X Y sp")
    case (Inl e)
    with fold_step_scram_fold [where lib = lib and K = K and X = X and Y = Y and sp = sp and st = st] fs have "r = Some e" by simp
    with fs Inl show ?thesis by simp
  next
    case (Inr h)
    with fold_step_scram_fold [where lib = lib and K = K and X = X and Y = Y and sp = sp and st = st] fs
    have r: "r = None" and th: "test_hit st1 = test_hit st @ [h]" by simp_all
    from Cons.IH [where st = st1 and acc = "acc @ [h]"] show ?thesis
      using fs r th Inr by (auto split: prod.splits option.splits)
  qed
qed

lemma scram_trial_loo_decode:
  "scram_trial lib zscore hrf K X n tbl perm =
     (case downsample_embeddings hrf (scramble perm tbl) True of
        Inl e \<Rightarrow> Inl e
      | Inr E \<Rightarrow>
          (case loo_decode lib K X (zscore E) n of
             (st, None) \<Rightarrow> Inr (map decoding_accuracy (test_hit st))
           | (st, Some e) \<Rightarrow> Inl e))"
proof (cases "downsample_embeddings hrf (scramble perm tbl) True")
  case (Inl e)
  then show ?thesis by (simp add: scram_trial_def)
next
  case (Inr E)
  show ?thesis
  proof (cases "leave_one_out n")
    case (Inl e)
    with Inr show ?thesis by (simp add: scram_trial_def loo_decode_def)
  next
    case splits: (Inr splits)
    from run_folds_scram_folds [where lib = lib and K = K and X = X and Y = "zscore E"
      and st = init_state and splits = splits and acc = "[]"]
    show ?thesis
      using Inr splits
      by (auto simp: scram_trial_def loo_decode_def init_state_def split: prod.splits option.splits)
  qed
qed


lemma columns_of_constant_rows:
  "columns c (map (replicate c) vs) = replicate c vs"
proof -
  have "map (\<lambda>r. r ! j) (map (replicate c) vs) = vs" if "j < c" for j
    using that by (intro nth_equalityI) simp_all
  then have "map (\<lambda>j. map (\<lambda>r. r ! j) (map (replicate c) vs)) [0..<c] = map (\<lambda>j. vs) [0..<c]"
    by (intro map_cong refl) simp
  then show ?thesis by (simp add: columns_def map_replicate_const)
qed

lemma columns_of_constant_columns:
  "columns (length ws) (replicate c ws) = map (replicate c) ws"
  by (intro nth_equalityI) (simp_all add: columns_def map_replicate_const)

lemma convolve_constant_rows:
  "convolve_columns k (map (replicate n_dims) vs)
     = map (replicate n_dims)
         (map (\<lambda>n. \<Sum>m\<leftarrow>[0..<length vs]. if m \<le> n \<and> n - m < length k then vs ! m * k ! (n - m) else 0)
            [0..<length vs])"
  unfolding convolve_columns_def columns_of_constant_rows
  using columns_of_constant_columns
    [of "map (\<lambda>n. \<Sum>m\<leftarrow>[0..<length vs]. if m \<le> n \<and> n - m < length k then vs ! m * k ! (n - m) else 0)
            [0..<length vs]" n_dims]
  by simp

lemma interpolated_two:
  "interpolated [\<lparr>onset = 0, word = w1, embedding = replicate 100 a\<rparr>,
                 \<lparr>onset = 3, word = w2, embedding = replicate 100 b\<rparr>]
     = map (replicate 100) [a, (b - a) / 3 + a, (b - a) / 3 * 2 + a]"
  by (simp add: interpolated_def np_arange_def interp_row_def searchsorted_def nan_to_num_def
      Let_def upt_rec)

lemma padded_two:
  "np_zeros 5 n_dims @ map (replicate 100) [u, v, w] @ np_zeros 2 n_dims
     = map (replicate n_dims) [0, 0, 0, 0, 0, u, v, w, 0, 0]"
  by (simp add: np_zeros_def n_dims_def numeral_eq_Suc)

lemma downsample_two:
  "downsample_embeddings [0, 1] [\<lparr>onset = 0, word = w1, embedding = replicate 100 a\<rparr>,
                                 \<lparr>onset = 3, word = w2, embedding = replicate 100 b\<rparr>] True
     = Inr (map (replicate 100) [0, 0, 0, 0, 0, 0, a, (b - a) / 3 + a, (b - a) / 3 * 2 + a, 0])"
proof -
  let ?tbl = "[\<lparr>onset = 0, word = w1, embedding = replicate 100 a\<rparr>,
               \<lparr>onset = 3, word = w2, embedding = replicate 100 b\<rparr>]"
  let ?vs = "[0, 0, 0, 0, 0, a, (b - a) / 3 + a, (b - a) / 3 * 2 + a, 0, 0]"
  have conv: "map (\<lambda>n. \<Sum>m\<leftarrow>[0..<length ?vs].
                 if m \<le> n \<and> n - m < length [0, 1 :: real] then ?vs ! m * [0, 1] ! (n - m) else 0)
            [0..<length ?vs]
       = [0, 0, 0, 0, 0, 0, a, (b - a) / 3 + a, (b - a) / 3 * 2 + a, 0]"
    by (simp add: upt_rec)
  have "downsample_embeddings [0, 1] ?tbl True
      = Inr (convolve_columns [0, 1] (np_zeros 5 n_dims @ interpolated ?tbl @ np_zeros 2 n_dims))"
    unfolding downsample_embeddings_cases by (simp add: ncols_def)
  also have "np_zeros 5 n_dims @ interpolated ?tbl @ np_zeros 2 n_dims = map (replicate n_dims) ?vs"
    unfolding interpolated_two by (rule padded_two)
  also have "convolve_columns [0, 1] (map (replicate n_dims) ?vs)
      = map (replicate n_dims) [0, 0, 0, 0, 0, 0, a, (b - a) / 3 + a, (b - a) / 3 * 2 + a, 0]"
    unfolding convolve_constant_rows conv ..
  finally show ?thesis by (simp add: n_dims_def)
qed

lemma scramble_whole:
  "scramble [1, 0] tbl_whole
     = [\<lparr>onset = 0, word = ''the'', embedding = replicate 100 1\<rparr>,
        \<lparr>onset = 3, word = ''end'', embedding = replicate 100 0\<rparr>]"
  by (simp add: scramble_def tbl_whole_def upt_rec)

lemma downsample_whole:
  "downsample_embeddings [0, 1] tbl_whole True
     = Inr (map (replicate 100) [0, 0, 0, 0, 0, 0, 0, 1/3, 2/3, 0])"
  unfolding tbl_whole_def using downsample_two [of "''the''" 0 "''end''" 1] by simp

lemma downsample_scrambled_whole:
  "downsample_embeddings [0, 1] (scramble [1, 0] tbl_whole) True
     = Inr (map (replicate 100) [0, 0, 0, 0, 0, 0, 1, 2/3, 1/3, 0])"
  unfolding scramble_whole using downsample_two [of "''the''" 1 "''end''" 0] by simp


text \<open>
  C4 (as amended). What a trial permutes is the table of word vectors, before it is
  resampled: each word keeps its onset, the embedding vectors are dealt out again among
  the words (the same vectors, each as often as before), and the trial then runs the
  resampling and the leave-one-subject-out decoding on the scrambled table: its result is
  the list of fold accuracies of \<open>loo_decode\<close> for the target
  \<open>zscore(downsample_embeddings(word_embedding_scram))\<close>, or the exception that
  stopped it.
\<close>

theorem scrambling_permutes_word_vectors:
  assumes "mset perm = mset [0..<length tbl]"
  shows "map onset (scramble perm tbl) = map onset tbl
    \<and> map word (scramble perm tbl) = map word tbl
    \<and> map embedding (scramble perm tbl) = map (\<lambda>k. embedding (tbl ! k)) perm
    \<and> mset (map embedding (scramble perm tbl)) = mset (map embedding tbl)
    \<and> scram_trial lib zscore hrf K X n tbl perm =
         (case downsample_embeddings hrf (scramble perm tbl) True of
            Inl e \<Rightarrow> Inl e
          | Inr E \<Rightarrow>
              (case loo_decode lib K X (zscore E) n of
                 (st, None) \<Rightarrow> Inr (map decoding_accuracy (test_hit st))
               | (st, Some e) \<Rightarrow> Inl e))"
proof -
  from assms have len: "length perm = length tbl" using mset_eq_length by fastforce
  show ?thesis
    using scramble_keeps_onsets [of perm tbl] scramble_embeddings [OF len] scramble_mset [OF assms]
      scram_trial_loo_decode [of lib zscore hrf K X n tbl perm]
    by simp
qed

text \<open>
  A run of the theorem: two words, exchanged. (The resampled signal has 10 rows, so the
  decoding of this trial stops at its first block assignment.)
\<close>

theorem scrambling_permutes_word_vectors_witness:
  "mset [1, 0] = mset [0..<length tbl_whole]
   \<and> map onset (scramble [1, 0] tbl_whole) = [0, 3]
   \<and> map embedding (scramble [1, 0] tbl_whole) = [replicate 100 1, replicate 100 0]
   \<and> scram_trial sample_lib (\<lambda>M. M) [0, 1] 10 subjects_1310x268 2 tbl_whole [1, 0] = Inl ValueError"
proof -
  have p: "mset [1, 0] = mset [0..<length tbl_whole]"
    by (simp add: tbl_whole_def upt_rec)
  note inst = scrambling_permutes_word_vectors
      [OF p, of sample_lib "\<lambda>M. M" "[0, 1]" 10 subjects_1310x268 2]
  have "\<not> broadcastable n_trs n_dims
      (map (replicate 100) [0, 0, 0, 0, 0, 0, 1, 2/3, 1/3, 0 :: real])"
    by (simp add: broadcastable_def n_trs_def)
  then have "loo_decode sample_lib 10 subjects_1310x268
      (map (replicate 100) [0, 0, 0, 0, 0, 0, 1, 2/3, 1/3, 0]) 2 = (init_state, Some ValueError)"
    by (subst loo_decode_first_fold_fails) (simp_all add: subjects_1310x268_def)
  with inst downsample_scrambled_whole
  have "scram_trial sample_lib (\<lambda>M. M) [0, 1] 10 subjects_1310x268 2 tbl_whole [1, 0]
      = Inl ValueError" by simp
  moreover from inst have "map onset (scramble [1, 0] tbl_whole) = [0, 3]"
    by (simp add: tbl_whole_def)
  moreover from inst
  have "map embedding (scramble [1, 0] tbl_whole) = [replicate 100 1, replicate 100 0]"
    by (simp add: tbl_whole_def)
  ultimately show ?thesis using p by simp
qed

lemma length_zscore_column: "length (zscore_column vs) = length vs"
  by (simp add: zscore_column_def)

lemma zscore_constant_rows:
  assumes "vs \<noteq> []"
  shows "zscore_model (map (replicate n_dims) vs) = map (replicate n_dims) (zscore_column vs)"
proof -
  have nc: "ncols (map (replicate n_dims) vs) = n_dims"
    using assms by (cases vs) (simp_all add: ncols_def)
  have "zscore_model (map (replicate n_dims) vs)
      = columns (length vs) (replicate n_dims (zscore_column vs))"
    by (simp add: zscore_model_def nc columns_of_constant_rows)
  also have "\<dots> = map (replicate n_dims) (zscore_column vs)"
    using columns_of_constant_columns [of "zscore_column vs" n_dims]
    by (simp add: length_zscore_column)
  finally show ?thesis .
qed

lemma zscore_column_card:
  assumes "np_std vs \<noteq> 0"
  shows "card (set (zscore_column vs)) = card (set vs)"
proof -
  let ?g = "\<lambda>x. Some ((x - np_mean vs) / np_std vs)"
  have "zscore_column vs = map ?g vs" using assms by (simp add: zscore_column_def)
  moreover have "inj_on ?g (set vs)" using assms by (auto simp: inj_on_def)
  ultimately show ?thesis by (simp add: card_image)
qed

lemma constant_rows_mset:
  assumes "mset (map (replicate n_dims) B) = mset (map (replicate n_dims) A)"
  shows "mset B = mset A"
proof -
  have "map (\<lambda>r. r ! 0) (map (replicate n_dims) C) = C" for C :: "'a list"
    by (intro nth_equalityI) (simp_all add: n_dims_def)
  then have "mset C = image_mset (\<lambda>r. r ! 0) (mset (map (replicate n_dims) C))" for C :: "'a list"
    by (metis mset_map)
  with assms show ?thesis by metis
qed

lemma sample_columns:
  "np_std [0, 0, 0, 0, 0, 0, 0, 1/3, 2/3, 0] \<noteq> 0"
  "np_std [0, 0, 0, 0, 0, 0, 1, 2/3, 1/3, 0] \<noteq> 0"
  by (simp_all add: np_std_def np_mean_def power2_eq_square)

lemma sample_columns_card:
  "card (set [0, 0, 0, 0, 0, 0, 0, 1/3, 2/3, 0 :: real]) = 3"
  "card (set [0, 0, 0, 0, 0, 0, 1, 2/3, 1/3, 0 :: real]) = 4"
proof -
  have "set [0, 0, 0, 0, 0, 0, 0, 1/3, 2/3, 0 :: real] = {0, 1/3, 2/3}" by auto
  then show "card (set [0, 0, 0, 0, 0, 0, 0, 1/3, 2/3, 0 :: real]) = 3" by simp
  have "set [0, 0, 0, 0, 0, 0, 1, 2/3, 1/3, 0 :: real] = {0, 1, 2/3, 1/3}" by auto
  then show "card (set [0, 0, 0, 0, 0, 0, 1, 2/3, 1/3, 0 :: real]) = 4" by simp
qed

text \<open>
  C4 as stated fails: the target that the decoder is given is not a row permutation of
  the unscrambled target, and the rows it holds are not the same. For two words three
  seconds apart, exchanged, and the kernel \<open>[0, 1]\<close>, the resampled signal rises from the
  first word's vector towards the second's in the one case and falls in the other; after
  standardisation the first target has three different rows and the second has four.
\<close>

theorem scrambled_target_is_no_row_permutation:
  "downsample_embeddings [0, 1] tbl_whole True
     = Inr (map (replicate 100) [0, 0, 0, 0, 0, 0, 0, 1/3, 2/3, 0])
   \<and> downsample_embeddings [0, 1] (scramble [1, 0] tbl_whole) True
     = Inr (map (replicate 100) [0, 0, 0, 0, 0, 0, 1, 2/3, 1/3, 0])
   \<and> mset (zscore_model (map (replicate 100) [0, 0, 0, 0, 0, 0, 1, 2/3, 1/3, 0]))
     \<noteq> mset (zscore_model (map (replicate 100) [0, 0, 0, 0, 0, 0, 0, 1/3, 2/3, 0]))"
proof -
  let ?orig = "[0, 0, 0, 0, 0, 0, 0, 1/3, 2/3, 0 :: real]"
  let ?scr = "[0, 0, 0, 0, 0, 0, 1, 2/3, 1/3, 0 :: real]"
  have "mset (zscore_model (map (replicate n_dims) ?scr))
      \<noteq> mset (zscore_model (map (replicate n_dims) ?orig))"
  proof
    assume "mset (zscore_model (map (replicate n_dims) ?scr))
      = mset (zscore_model (map (replicate n_dims) ?orig))"
    then have "mset (map (replicate n_dims) (zscore_column ?scr))
      = mset (map (replicate n_dims) (zscore_column ?orig))"
      by (simp only: zscore_constant_rows list.distinct not_False_eq_True)
    then have "mset (zscore_column ?scr) = mset (zscore_column ?orig)"
      by (rule constant_rows_mset)
    then have "set (zscore_column ?scr) = set (zscore_column ?orig)"
      by (rule mset_eq_setD)
    then have "card (set (zscore_column ?scr)) = card (set (zscore_column ?orig))"
      by (rule arg_cong)
    then have "card (set ?scr) = card (set ?orig)"
      by (simp only: zscore_column_card [OF sample_columns(1)] zscore_column_card [OF sample_columns(2)])
    then show False unfolding sample_columns_card by simp
  qed
  then show ?thesis
    using downsample_whole downsample_scrambled_whole by (simp add: n_dims_def)
qed

end
